theory Spec2Isabelle
  imports Complex_Main
begin

section \<open>JavaScript numbers and strings\<close>

text \<open>
  The analytics engine is TypeScript. Its \<^verbatim>\<open>number\<close> is an IEEE double; the
  embedding computes with exact reals, so it speaks about the formulas the code evaluates
  and not about binary rounding error. Counts (lengths of arrays, sizes of sets, numbers of
  keys) are natural numbers. \<^verbatim>\<open>NaN\<close> and \<^verbatim>\<open>undefined\<close> are the value
  \<open>None\<close> of an option type wherever the code can produce them.

  Strings are lists of characters; the character classes below are the ASCII ones, which is
  what the regular expressions of the source (written without the unicode flag) test.
  \<^verbatim>\<open>trim\<close> strips the ASCII white space; the other spaces that JavaScript strips
  (such as the no-break space) lie outside the ASCII strings of the embedding.
\<close>

definition jsRound :: "real \<Rightarrow> int" where
  \<comment> \<open>\<^verbatim>\<open>Math.round\<close>: the nearest integer, a tie going to the larger one.\<close>
  "jsRound x = \<lfloor>x + 1 / 2\<rfloor>"


definition jsSqrt :: "real \<Rightarrow> real option" where
  \<comment> \<open>\<^verbatim>\<open>Math.sqrt\<close> is \<^verbatim>\<open>NaN\<close> below zero.\<close>
  "jsSqrt x = (if x < 0 then None else Some (sqrt x))"

subsection \<open>Characters and trimming\<close>

definition isUpper :: "char \<Rightarrow> bool" where
  \<comment> \<open>the class \<^verbatim>\<open>[A-Z]\<close>\<close>
  "isUpper c = (65 \<le> (of_char c :: nat) \<and> (of_char c :: nat) \<le> 90)"

definition isLower :: "char \<Rightarrow> bool" where
  \<comment> \<open>the class \<^verbatim>\<open>[a-z]\<close>\<close>
  "isLower c = (97 \<le> (of_char c :: nat) \<and> (of_char c :: nat) \<le> 122)"

definition isDigit :: "char \<Rightarrow> bool" where
  \<comment> \<open>the class \<^verbatim>\<open>\d\<close>\<close>
  "isDigit c = (48 \<le> (of_char c :: nat) \<and> (of_char c :: nat) \<le> 57)"

definition isWordChar :: "char \<Rightarrow> bool" where
  \<comment> \<open>the class \<^verbatim>\<open>\w\<close>, which decides \<^verbatim>\<open>\b\<close>\<close>
  "isWordChar c = (isUpper c \<or> isLower c \<or> isDigit c \<or> c = CHR ''_'')"

definition isWhite :: "char \<Rightarrow> bool" where
  \<comment> \<open>tab, line feed, vertical tab, form feed, carriage return, space\<close>
  "isWhite c = ((of_char c :: nat) \<in> {9, 10, 11, 12, 13, 32})"

definition lowerLetters :: string where
  "lowerLetters = ''abcdefghijklmnopqrstuvwxyz''"

definition upperLetters :: string where
  "upperLetters = ''ABCDEFGHIJKLMNOPQRSTUVWXYZ''"

definition toUpperChar :: "char \<Rightarrow> char" where
  \<comment> \<open>the canonical form under which a regular expression with the flag \<^verbatim>\<open>i\<close> compares\<close>
  "toUpperChar c = (case map_of (zip lowerLetters upperLetters) c of Some d \<Rightarrow> d | None \<Rightarrow> c)"

definition toLowerChar :: "char \<Rightarrow> char" where
  "toLowerChar c = (case map_of (zip upperLetters lowerLetters) c of Some d \<Rightarrow> d | None \<Rightarrow> c)"

definition toLowerCase :: "string \<Rightarrow> string" where
  "toLowerCase s = map toLowerChar s"

definition trim :: "string \<Rightarrow> string" where
  \<comment> \<open>\<^verbatim>\<open>String.prototype.trim\<close>\<close>
  "trim s = rev (dropWhile isWhite (rev (dropWhile isWhite s)))"

subsection \<open>Objects used as counters\<close>

text \<open>
  A \<^verbatim>\<open>Record<string, number>\<close> that the code fills with
  \<^verbatim>\<open>counts[k] = (counts[k] || 0) + 1\<close> is an association list in insertion order,
  the order in which \<^verbatim>\<open>Object.entries\<close> lists string keys. (Keys that spell an
  array index are listed first by JavaScript, and keys that name a member of
  \<^verbatim>\<open>Object.prototype\<close> are found before they are stored; job titles and category
  names of that shape are outside the embedding.)
\<close>

fun bump :: "string \<Rightarrow> (string \<times> nat) list \<Rightarrow> (string \<times> nat) list" where
  "bump k [] = [(k, 1)]"
| "bump k ((k', n) # rest) = (if k' = k then (k', n + 1) # rest else (k', n) # bump k rest)"

definition setAdd :: "'a \<Rightarrow> 'a list \<Rightarrow> 'a list" where
  \<comment> \<open>\<^verbatim>\<open>Set.prototype.add\<close>, the set kept in insertion order\<close>
  "setAdd x xs = (if x \<in> set xs then xs else xs @ [x])"

definition newSet :: "'a list \<Rightarrow> 'a list" where
  \<comment> \<open>\<^verbatim>\<open>new Set(array)\<close>\<close>
  "newSet xs = fold setAdd xs []"

definition sortDesc :: "('a \<Rightarrow> nat) \<Rightarrow> 'a list \<Rightarrow> 'a list" where
  \<comment> \<open>\<^verbatim>\<open>.sort((a, b) => key(b) - key(a))\<close>; the sort is stable\<close>
  "sortDesc key xs = sort_key (\<lambda>x. - int (key x)) xs"

section \<open>Population estimator: \<^verbatim>\<open>computeCaptureRecapture\<close> (src/unnamed/part_005)\<close>

record TitleCountEstimate =
  uniqueRecipients :: nat
  uniqueNominators :: nat
  totalUnique :: "int option"
  overlap :: "nat option"

record CaptureRecaptureEstimate =
  cr_n1 :: nat
  cr_n2 :: nat
  cr_m :: "nat option"
  chapmanEstimate :: "int option"
  standardError :: "int option"
  ci95 :: "int option \<times> int option"
  sensitivity :: "(real \<times> int option) list"

text \<open>
  \<^verbatim>\<open>computeCaptureRecapture\<close>. The three inputs are read from the title count; the
  overlap is \<open>None\<close> when \<^verbatim>\<open>computeTitleCount\<close> produced \<^verbatim>\<open>NaN\<close>, and
  then every number of the result is \<^verbatim>\<open>NaN\<close>. The differences \<open>n1 - m\<close> and
  \<open>n2 - m\<close> are taken in the reals: they are negative when the overlap exceeds a sample.
\<close>

definition chapmanRaw :: "nat \<Rightarrow> nat \<Rightarrow> nat \<Rightarrow> real" where
  \<comment> \<open>\<^verbatim>\<open>((n1 + 1) * (n2 + 1)) / (m + 1) - 1\<close>\<close>
  "chapmanRaw a b k = ((real a + 1) * (real b + 1)) / (real k + 1) - 1"

definition chapmanVariance :: "nat \<Rightarrow> nat \<Rightarrow> nat \<Rightarrow> real" where
  \<comment> \<open>\<^verbatim>\<open>((n1 + 1) * (n2 + 1) * (n1 - m) * (n2 - m)) / ((m + 1) ** 2 * (m + 2))\<close>\<close>
  "chapmanVariance a b k =
     ((real a + 1) * (real b + 1) * (real a - real k) * (real b - real k)) /
     ((real k + 1) ^ 2 * (real k + 2))"

definition computeCaptureRecapture :: "TitleCountEstimate \<Rightarrow> CaptureRecaptureEstimate" where
  "computeCaptureRecapture titleCount =
     (let a = uniqueRecipients titleCount;
          b = uniqueNominators titleCount;
          mo = overlap titleCount;
          chapman = map_option (chapmanRaw a b) mo;
          variance = map_option (chapmanVariance a b) mo;
          se = Option.bind variance jsSqrt;
          ciLow = (case (chapman, se) of
                     (Some c, Some s) \<Rightarrow> Some (max (c - 1.96 * s) (real (max a b)))
                   | _ \<Rightarrow> None);
          ciHigh = (case (chapman, se) of
                      (Some c, Some s) \<Rightarrow> Some (c + 1.96 * s)
                    | _ \<Rightarrow> None)
      in \<lparr> cr_n1 = a, cr_n2 = b, cr_m = mo,
           chapmanEstimate = map_option jsRound chapman,
           standardError = map_option jsRound se,
           ci95 = (map_option jsRound ciLow, map_option jsRound ciHigh),
           sensitivity =
             map (\<lambda>k. (k, map_option (\<lambda>c. jsRound (c * k)) chapman))
               [1.0, 1.25, 1.5, 2.0, 2.5] \<rparr>)"

section \<open>Seniority inference: \<^verbatim>\<open>extractSeniority\<close> (src/unnamed/part_004)\<close>

text \<open>
  Every seniority pattern is a literal between two \<^verbatim>\<open>\b\<close> assertions, with or
  without the flag \<^verbatim>\<open>i\<close>. \<^verbatim>\<open>\b\<close> holds between two positions exactly when one
  side is a word character and the other is not, the outside of the string counting as not
  one. \<^verbatim>\<open>pattern.test(title)\<close> looks for a match at every position from the left.
\<close>

definition isWordOpt :: "char option \<Rightarrow> bool" where
  "isWordOpt c = (case c of None \<Rightarrow> False | Some x \<Rightarrow> isWordChar x)"

definition wordBoundary :: "char option \<Rightarrow> char option \<Rightarrow> bool" where
  "wordBoundary l r = (isWordOpt l \<noteq> isWordOpt r)"

definition firstChar :: "string \<Rightarrow> char option" where
  "firstChar s = (case s of [] \<Rightarrow> None | c # _ \<Rightarrow> Some c)"

definition lastCharAfter :: "char option \<Rightarrow> string \<Rightarrow> char option" where
  \<comment> \<open>the character before the position that follows \<open>s\<close>, \<open>prev\<close> standing before \<open>s\<close>\<close>
  "lastCharAfter prev s = (if s = [] then prev else Some (last s))"

definition charEq :: "bool \<Rightarrow> char \<Rightarrow> char \<Rightarrow> bool" where
  "charEq ci p c = (if ci then toUpperChar p = toUpperChar c else p = c)"

definition matchHere :: "bool \<Rightarrow> string \<Rightarrow> char option \<Rightarrow> string \<Rightarrow> bool" where
  \<comment> \<open>\<^verbatim>\<open>\bliteral\b\<close> matches at the start of \<open>s\<close>, which the character \<open>prev\<close> precedes\<close>
  "matchHere ci lit prev s =
     (wordBoundary prev (firstChar s) \<and>
      length lit \<le> length s \<and>
      list_all2 (charEq ci) lit (take (length lit) s) \<and>
      wordBoundary (lastCharAfter prev (take (length lit) s)) (firstChar (drop (length lit) s)))"

fun searchFrom :: "bool \<Rightarrow> string \<Rightarrow> char option \<Rightarrow> string \<Rightarrow> bool" where
  "searchFrom ci lit prev [] = matchHere ci lit prev []"
| "searchFrom ci lit prev (c # cs) =
     (matchHere ci lit prev (c # cs) \<or> searchFrom ci lit (Some c) cs)"

definition regexTest :: "bool \<times> string \<Rightarrow> string \<Rightarrow> bool" where
  \<comment> \<open>\<^verbatim>\<open>/\bliteral\b/.test(title)\<close>, the first component saying whether the flag \<^verbatim>\<open>i\<close> is set\<close>
  "regexTest pat title = searchFrom (fst pat) (snd pat) None title"

definition SENIORITY_PATTERNS :: "((bool \<times> string) \<times> string) list" where
  "SENIORITY_PATTERNS =
     [((True, ''Vice President''), ''Vice President''),
      ((False, ''VP''), ''VP''),
      ((True, ''Director''), ''Director''),
      ((True, ''Principal''), ''Principal''),
      ((True, ''Senior Manager''), ''Manager''),
      ((True, ''Senior''), ''Senior''),
      ((True, ''Lead''), ''Lead''),
      ((True, ''Manager''), ''Manager''),
      ((True, ''Associate''), ''Associate''),
      ((True, ''Junior''), ''Junior'')]"

fun firstMatch :: "((bool \<times> string) \<times> string) list \<Rightarrow> string \<Rightarrow> string option" where
  \<comment> \<open>the loop of \<^verbatim>\<open>extractSeniority\<close>\<close>
  "firstMatch [] title = None"
| "firstMatch ((pat, level) # rest) title =
     (if regexTest pat title then Some level else firstMatch rest title)"

definition extractSeniority :: "string \<Rightarrow> string option" where
  "extractSeniority title = firstMatch SENIORITY_PATTERNS title"

definition buildSeniorityDist :: "string list \<Rightarrow> (string \<times> nat) list" where
  \<comment> \<open>\<^verbatim>\<open>if (level)\<close> skips \<^verbatim>\<open>null\<close> and would skip an empty level\<close>
  "buildSeniorityDist titles =
     fold (\<lambda>t dist. case extractSeniority t of
                       None \<Rightarrow> dist
                     | Some level \<Rightarrow> if level = [] then dist else bump level dist)
       titles []"

section \<open>Descriptive aggregator: \<^verbatim>\<open>processCSVToRawData\<close> (src/unnamed/part_004)\<close>

subsection \<open>Percentiles\<close>

definition jsIndex :: "'a list \<Rightarrow> int \<Rightarrow> 'a option" where
  \<comment> \<open>\<^verbatim>\<open>sorted[i]\<close>: \<^verbatim>\<open>undefined\<close> outside the array\<close>
  "jsIndex xs i = (if 0 \<le> i \<and> i < int (length xs) then Some (xs ! nat i) else None)"

definition percentile :: "real list \<Rightarrow> real \<Rightarrow> real option" where
  \<comment> \<open>\<open>None\<close> is the \<^verbatim>\<open>undefined\<close> or \<^verbatim>\<open>NaN\<close> an index outside the array gives\<close>
  "percentile arr p =
     (let idx = (p / 100) * (real (length arr) - 1);
          lo = \<lfloor>idx\<rfloor>;
          hi = \<lceil>idx\<rceil>
      in if lo = hi then jsIndex arr lo
         else (case (jsIndex arr lo, jsIndex arr hi) of
                 (Some a, Some b) \<Rightarrow> Some (a + (b - a) * (idx - real_of_int lo))
               | _ \<Rightarrow> None))"

definition true_median :: "real list \<Rightarrow> real" where
  \<comment> \<open>The median as the specification means it: the middle order statistic of a sorted
      list of odd length, the mean of the two middle ones for an even length.\<close>
  "true_median arr =
     (let n = length arr
      in if odd n then arr ! (n div 2)
         else (arr ! (n div 2 - 1) + arr ! (n div 2)) / 2)"

subsection \<open>Frequency tables and interaction pairs\<close>

record CsvRow =
  message :: string
  award_title :: string
  recipient_title :: string
  nominator_title :: string

definition countValues :: "string list \<Rightarrow> (string \<times> nat) list" where
  "countValues vals =
     fold (\<lambda>v counts. let trimmed = trim v in if trimmed \<noteq> [] then bump trimmed counts else counts)
       vals []"

definition topN :: "(string \<times> nat) list \<Rightarrow> nat \<Rightarrow> (string \<times> nat) list" where
  "topN counter n = take n (sortDesc snd counter)"

record InteractionPair =
  nominator :: string
  recipient :: string
  pair_count :: nat

definition pairKey :: "string \<Rightarrow> string \<Rightarrow> string" where
  "pairKey nom recip = trim nom @ ''|||'' @ trim recip"

fun bumpPair :: "string \<Rightarrow> string \<Rightarrow> string \<Rightarrow> (string \<times> InteractionPair) list
    \<Rightarrow> (string \<times> InteractionPair) list" where
  \<comment> \<open>\<^verbatim>\<open>if (!pairCounts[key]) pairCounts[key] = {nominator, recipient, count: 0};
      pairCounts[key].count++\<close>\<close>
  "bumpPair key nom recip [] = [(key, \<lparr>nominator = nom, recipient = recip, pair_count = 1\<rparr>)]"
| "bumpPair key nom recip ((k, p) # rest) =
     (if k = key then (k, p\<lparr>pair_count := pair_count p + 1\<rparr>) # rest
      else (k, p) # bumpPair key nom recip rest)"

definition collectPairs :: "CsvRow list \<Rightarrow> (string \<times> InteractionPair) list" where
  "collectPairs rows =
     fold (\<lambda>row pairCounts.
             let nom = trim (nominator_title row); recip = trim (recipient_title row)
             in if nom = [] \<or> recip = [] then pairCounts
                else bumpPair (pairKey nom recip) nom recip pairCounts)
       rows []"

record Interactions =
  total_interactions :: nat
  unique_pairs :: nat
  unique_recipients :: nat
  unique_nominators :: nat
  self_recognition_count :: nat
  bidirectional_pairs :: nat
  top_10_pairs :: "InteractionPair list"

record TitleStats =
  title_count :: nat
  null_count :: nat
  unique_count :: nat
  top_15_titles :: "(string \<times> nat) list"
  seniority_distribution :: "(string \<times> nat) list"

record RawData =
  total_rows :: nat
  recipient_stats :: TitleStats
  nominator_stats :: TitleStats
  interactions :: Interactions

text \<open>
  \<^verbatim>\<open>processCSVToRawData\<close>, without the message and award-title statistics (lengths,
  means, previews), which no later stage of the estimator reads. \<open>recipient_stats\<close> and
  \<open>nominator_stats\<close> are the fields \<^verbatim>\<open>recipient_title\<close> and
  \<^verbatim>\<open>nominator_title\<close> of \<^verbatim>\<open>RawData\<close>, \<open>title_count\<close> is their
  \<^verbatim>\<open>count\<close> and \<open>pair_count\<close> the \<^verbatim>\<open>count\<close> of a pair.
\<close>

definition titleStats :: "string list \<Rightarrow> TitleStats" where
  "titleStats titles =
     (let valid = filter (\<lambda>t. trim t \<noteq> []) titles;
          counts = countValues valid
      in \<lparr> title_count = length valid,
           null_count = length (filter (\<lambda>t. trim t = []) titles),
           unique_count = length counts,
           top_15_titles = topN counts 15,
           seniority_distribution = buildSeniorityDist valid \<rparr>)"

definition computeInteractions :: "CsvRow list \<Rightarrow> Interactions" where
  "computeInteractions rows =
     (let pairCounts = collectPairs rows;
          allPairs = map snd pairCounts;
          uniquePairs = length allPairs;
          selfCount = sum_list (map pair_count (filter (\<lambda>p. nominator p = recipient p) allPairs));
          pairSet = set (map fst pairCounts);
          biCount = length (filter (\<lambda>p. pairKey (recipient p) (nominator p) \<in> pairSet \<and>
                                         nominator p \<noteq> recipient p) allPairs)
      in \<lparr> total_interactions =
             length (filter (\<lambda>r. trim (nominator_title r) \<noteq> [] \<and> trim (recipient_title r) \<noteq> []) rows),
           unique_pairs = uniquePairs,
           unique_recipients = length (countValues (filter (\<lambda>t. trim t \<noteq> []) (map recipient_title rows))),
           unique_nominators = length (countValues (filter (\<lambda>t. trim t \<noteq> []) (map nominator_title rows))),
           self_recognition_count = selfCount,
           bidirectional_pairs = biCount div 2,
           top_10_pairs = take 10 (sortDesc pair_count allPairs) \<rparr>)"

definition processCSVToRawData :: "CsvRow list \<Rightarrow> RawData" where
  "processCSVToRawData rows =
     \<lparr> total_rows = length rows,
       recipient_stats = titleStats (map recipient_title rows),
       nominator_stats = titleStats (map nominator_title rows),
       interactions = computeInteractions rows \<rparr>"

section \<open>Overlap of the two title sets: \<^verbatim>\<open>computeTitleCount\<close> (src/unnamed/part_005)\<close>

definition jsMax3 :: "int option \<Rightarrow> int option \<Rightarrow> int option \<Rightarrow> int option" where
  \<comment> \<open>\<^verbatim>\<open>Math.max(a, b, c)\<close> is \<^verbatim>\<open>NaN\<close> as soon as one argument is\<close>
  "jsMax3 a b c =
     (case (a, b, c) of (Some x, Some y, Some z) \<Rightarrow> Some (max x (max y z)) | _ \<Rightarrow> None)"

text \<open>
  \<^verbatim>\<open>computeTitleCount\<close>. The rate \<^verbatim>\<open>topOverlap / Math.min(recipSet.size,
  nomSet.size)\<close> is \<^verbatim>\<open>0 / 0\<close>, that is \<^verbatim>\<open>NaN\<close>, when one of the two top lists is
  empty (\<open>topOverlap\<close> counts members of both sets, so it is zero then). The overlap, when it
  is a number, is an integer from 1 on and is stored as a natural number. The field
  \<^verbatim>\<open>overlapPct\<close>, a percentage for display, is not part of the embedding.
\<close>

definition computeTitleCount :: "RawData \<Rightarrow> TitleCountEstimate" where
  "computeTitleCount raw =
     (let a = unique_count (recipient_stats raw);
          b = unique_count (nominator_stats raw);
          recipSet = newSet (map fst (top_15_titles (recipient_stats raw)));
          nomSet = newSet (map fst (top_15_titles (nominator_stats raw)));
          topOverlap = length (filter (\<lambda>t. t \<in> set nomSet) recipSet);
          d = min (length recipSet) (length nomSet);
          topOverlapRate = (if d = 0 then None else Some (real topOverlap / real d));
          estimatedOverlap = map_option (\<lambda>r. jsRound (r * real (min a b))) topOverlapRate;
          overlapFromSelf =
            (if self_recognition_count (interactions raw) > 0
             then Some (jsRound (real (min a b) * 0.3))
             else estimatedOverlap);
          ov = jsMax3 estimatedOverlap overlapFromSelf (Some 1)
      in \<lparr> uniqueRecipients = a,
           uniqueNominators = b,
           totalUnique = map_option (\<lambda>v. int a + int b - v) ov,
           overlap = map_option nat ov \<rparr>)"

definition overlap_from_shared_titles :: "RawData \<Rightarrow> int option" where
  \<comment> \<open>The overlap as the specification describes it: the share of shared titles among the
      top lists, scaled to the smaller unique-title count, with a floor of 1.\<close>
  "overlap_from_shared_titles raw =
     (let a = unique_count (recipient_stats raw);
          b = unique_count (nominator_stats raw);
          recipSet = newSet (map fst (top_15_titles (recipient_stats raw)));
          nomSet = newSet (map fst (top_15_titles (nominator_stats raw)));
          shared = length (filter (\<lambda>t. t \<in> set nomSet) recipSet);
          d = min (length recipSet) (length nomSet)
      in if d = 0 then None
         else Some (max 1 (jsRound (real shared / real d * real (min a b)))))"

record PopulationEstimate =
  titleCount :: TitleCountEstimate
  captureRecapture :: CaptureRecaptureEstimate
  recommended_low :: "int option"
  recommended_mid :: "int option"
  recommended_high :: "int option"

definition estimatePopulation :: "RawData \<Rightarrow> PopulationEstimate" where
  \<comment> \<open>without the network figures and the awards-per-person ratios\<close>
  "estimatePopulation raw =
     (let tc = computeTitleCount raw;
          cr = computeCaptureRecapture tc
      in \<lparr> titleCount = tc,
           captureRecapture = cr,
           recommended_low = fst (ci95 cr),
           recommended_mid = chapmanEstimate cr,
           recommended_high = snd (ci95 cr) \<rparr>)"

section \<open>Classification quality analyzer: processPhase2.ts\<close>

record Subcategory =
  sub_id :: string
  sub_name :: string

record Category =
  cat_id :: string
  cat_name :: string
  subcategories :: "Subcategory list"

type_synonym Taxonomy = "Category list"

record Classification =
  batch :: nat
  category :: "string option"
  subcategory :: "string option"
  themes :: "string list"
  new_category :: "string option"

record Metadata =
  total_messages :: nat
  total_classified :: nat
  batch_size :: nat

record Phase2Data =
  classifications :: "Classification list"
  metadata :: Metadata
  candidate_categories :: "(string \<times> nat) list"



subsection \<open>The format of a subcategory value\<close>

definition matchesClasses :: "(char \<Rightarrow> bool) list \<Rightarrow> string \<Rightarrow> bool" where
  \<comment> \<open>\<^verbatim>\<open>/^[c1][c2]...$/.test(s)\<close>: one character of each class, and nothing else\<close>
  "matchesClasses classes s = list_all2 (\<lambda>cl c. cl c) classes s"

definition stripLowerSuffix :: "string \<Rightarrow> string" where
  \<comment> \<open>\<^verbatim>\<open>vid.replace(/[a-z]+$/, "")\<close>\<close>
  "stripLowerSuffix vid = rev (dropWhile isLower (rev vid))"

definition startsWith :: "string \<Rightarrow> string \<Rightarrow> bool" where
  "startsWith s prefix = (take (length prefix) s = prefix)"

definition isNullish :: "string option \<Rightarrow> bool" where
  \<comment> \<open>\<^verbatim>\<open>!sub || sub === "null" || sub === "None" || sub === "N/A"\<close>, on the value as given\<close>
  "isNullish sub =
     (case sub of
        None \<Rightarrow> True
      | Some raw \<Rightarrow> raw = [] \<or> raw = ''null'' \<or> raw = ''None'' \<or> raw = ''N/A'')"

definition subText :: "string option \<Rightarrow> string" where
  \<comment> \<open>the string that \<^verbatim>\<open>sub\<close> is once the first test has excluded \<^verbatim>\<open>null\<close>\<close>
  "subText sub = (case sub of None \<Rightarrow> [] | Some raw \<Rightarrow> raw)"

definition isCatId :: "string \<Rightarrow> string list \<Rightarrow> bool" where
  \<comment> \<open>\<^verbatim>\<open>[...validSubIds].some((vid) => s === vid.replace(/[a-z]+$/, ""))\<close>\<close>
  "isCatId s validSubIds = list_ex (\<lambda>vid. s = stripLowerSuffix vid) validSubIds"

definition extendsCatPrefix :: "string \<Rightarrow> string list \<Rightarrow> bool" where
  \<comment> \<open>the loop over \<^verbatim>\<open>allCatPrefixes\<close>, entered when the set of ids is not empty\<close>
  "extendsCatPrefix s validSubIds =
     (validSubIds \<noteq> [] \<and>
      list_ex (\<lambda>prefix. startsWith s prefix \<and> length s > length prefix)
        (newSet (map stripLowerSuffix validSubIds)))"

definition detectSubcategoryFormat :: "string option \<Rightarrow> string list \<Rightarrow> string" where
  "detectSubcategoryFormat sub validSubIds =
     (if isNullish sub then ''Null / Empty''
      else let s = trim (subText sub) in
        if s \<in> set validSubIds then ''Correct (matches taxonomy)''
        else if matchesClasses [isUpper] s then ''Letter only (A, B, C)''
        else if matchesClasses [isUpper, isDigit] s then ''Letter+number (A1, B2)''
        else if matchesClasses [isUpper, isDigit, isLower] s then ''Alt prefix (A2b, B1a)''
        else if matchesClasses [isLower] s then ''Lowercase letter (a, b, c)''
        else if isCatId s validSubIds then ''Category ID as subcategory''
        else if extendsCatPrefix s validSubIds then ''Wrong category prefix''
        else ''Other / Unrecognized'')"

subsection \<open>Category distribution and bias score\<close>




definition trimmedCategory :: "Classification \<Rightarrow> string" where
  \<comment> \<open>\<^verbatim>\<open>c.category?.trim() || ""\<close>\<close>
  "trimmedCategory c = (case category c of None \<Rightarrow> [] | Some x \<Rightarrow> trim x)"







section \<open>Cross-run comparator: processComparison.ts\<close>

record PipelineRun =
  run_name :: string
  run_taxonomy :: "Taxonomy option"
  run_phase2 :: "Phase2Data option"

definition getValidCategoryIds :: "Taxonomy option \<Rightarrow> string list" where
  "getValidCategoryIds taxonomy =
     (case taxonomy of None \<Rightarrow> [] | Some t \<Rightarrow> newSet (map cat_id t))"

definition objSet :: "string \<Rightarrow> 'v \<Rightarrow> (string \<times> 'v) list \<Rightarrow> (string \<times> 'v) list" where
  \<comment> \<open>\<^verbatim>\<open>obj[k] = v\<close>: a key that is present keeps its place\<close>
  "objSet k v obj = (if k \<in> fst ` set obj then map (\<lambda>(k', v'). if k' = k then (k', v) else (k', v')) obj
                     else obj @ [(k, v)])"

definition idToName :: "Taxonomy option \<Rightarrow> (string \<times> string) list" where
  "idToName taxonomy =
     (case taxonomy of
        None \<Rightarrow> []
      | Some t \<Rightarrow> fold (\<lambda>c tbl. objSet (cat_id c) (cat_name c) tbl) t [])"

definition nameOfCategory :: "(string \<times> string) list \<Rightarrow> string \<Rightarrow> string" where
  \<comment> \<open>\<^verbatim>\<open>idToName[catId] || catId\<close>\<close>
  "nameOfCategory tbl catId =
     (case map_of tbl catId of None \<Rightarrow> catId | Some n \<Rightarrow> if n = [] then catId else n)"

definition runCategoryNames :: "PipelineRun \<Rightarrow> Classification list \<Rightarrow> string list" where
  \<comment> \<open>the names under which the valid classifications of a run are counted, one per
      classification, in order\<close>
  "runCategoryNames run clf =
     map (\<lambda>c. nameOfCategory (idToName (run_taxonomy run)) (trimmedCategory c))
       (filter (\<lambda>c. trimmedCategory c \<in> set (getValidCategoryIds (run_taxonomy run))) clf)"

definition collectOverlap :: "PipelineRun list
    \<Rightarrow> string list \<times> (string \<times> (string \<times> nat) list) list" where
  \<comment> \<open>the first loop of \<^verbatim>\<open>computeCategoryOverlap\<close>: \<^verbatim>\<open>allCatNames\<close> and
      \<^verbatim>\<open>pipelineCatCounts\<close>\<close>
  "collectOverlap runs =
     fold (\<lambda>run (allCatNames, pipelineCatCounts).
             case run_phase2 run of
               None \<Rightarrow> (allCatNames, pipelineCatCounts)
             | Some p \<Rightarrow>
                 (let names = runCategoryNames run (classifications p)
                  in (fold setAdd names allCatNames,
                      objSet (run_name run) (fold bump names []) pipelineCatCounts)))
       runs ([], [])"

record CategoryOverlap =
  co_category :: string
  co_pipelines :: "(string \<times> nat) list"

definition countIn :: "(string \<times> (string \<times> nat) list) list \<Rightarrow> string \<Rightarrow> string \<Rightarrow> nat" where
  \<comment> \<open>\<^verbatim>\<open>pipelineCatCounts[run.name]?.[category] || 0\<close>\<close>
  "countIn pipelineCatCounts runName cat =
     (case map_of pipelineCatCounts runName of
        None \<Rightarrow> 0
      | Some counts \<Rightarrow> (case map_of counts cat of None \<Rightarrow> 0 | Some n \<Rightarrow> n))"

definition computeCategoryOverlap :: "PipelineRun list \<Rightarrow> CategoryOverlap list" where
  "computeCategoryOverlap runs =
     (let (allCatNames, pipelineCatCounts) = collectOverlap runs
      in sortDesc (\<lambda>row. sum_list (map snd (co_pipelines row)))
           (map (\<lambda>cat.
                   \<lparr> co_category = cat,
                     co_pipelines =
                       fold (\<lambda>run obj. objSet (run_name run) (countIn pipelineCatCounts (run_name run) cat) obj)
                         runs [] \<rparr>)
              allCatNames))"

record TaxonomyDiff =
  categoryId :: string
  categoryName :: string
  presentIn :: "string list"
  missingFrom :: "string list"

fun addPresent :: "string \<Rightarrow> string \<Rightarrow> string \<Rightarrow> (string \<times> string \<times> string list) list
    \<Rightarrow> (string \<times> string \<times> string list) list" where
  \<comment> \<open>\<^verbatim>\<open>if (!catMap[key]) catMap[key] = {name, presentIn: new Set()};
      catMap[key].presentIn.add(run.name)\<close>\<close>
  "addPresent key nm runName [] = [(key, nm, [runName])]"
| "addPresent key nm runName ((k, n, ps) # rest) =
     (if k = key then (k, n, setAdd runName ps) # rest
      else (k, n, ps) # addPresent key nm runName rest)"

definition collectDiff :: "PipelineRun list \<Rightarrow> (string \<times> string \<times> string list) list" where
  "collectDiff runs =
     fold (\<lambda>run catMap.
             case run_taxonomy run of
               None \<Rightarrow> catMap
             | Some t \<Rightarrow>
                 fold (\<lambda>cat cm. addPresent (trim (toLowerCase (cat_name cat))) (cat_name cat) (run_name run) cm)
                   t catMap)
       runs []"

definition computeTaxonomyDiff :: "PipelineRun list \<Rightarrow> TaxonomyDiff list" where
  "computeTaxonomyDiff runs =
     (let allPipelines = map run_name runs
      in sortDesc (\<lambda>d. length (presentIn d))
           (map (\<lambda>(key, nm, ps).
                   \<lparr> categoryId = [], categoryName = nm, presentIn = ps,
                     missingFrom = filter (\<lambda>p. p \<notin> set ps) allPipelines \<rparr>)
              (collectDiff runs)))"

section \<open>Properties of the population estimator\<close>

lemma jsRound_of_int: "jsRound (real_of_int i) = i"
  by (simp add: jsRound_def)

lemma jsRound_mono: "x \<le> y \<Longrightarrow> jsRound x \<le> jsRound y"
  by (simp add: jsRound_def floor_mono)

lemma jsRound_ge: "real_of_int i \<le> x \<Longrightarrow> i \<le> jsRound x"
  using jsRound_mono [of "real_of_int i" x] by (simp add: jsRound_of_int)

lemma chapmanRaw_int:
  "jsRound (chapmanRaw a b k) =
     (2 * (int a + 1) * (int b + 1) + (int k + 1)) div (2 * (int k + 1)) - 1"
proof -
  have "chapmanRaw a b k + 1 / 2 =
      real_of_int (2 * (int a + 1) * (int b + 1) + (int k + 1)) / real_of_int (2 * (int k + 1)) - 1"
    by (simp add: chapmanRaw_def field_simps)
  then have "jsRound (chapmanRaw a b k) =
      \<lfloor>real_of_int (2 * (int a + 1) * (int b + 1) + (int k + 1)) / real_of_int (2 * (int k + 1)) - 1\<rfloor>"
    by (simp add: jsRound_def)
  also have "\<dots> =
      \<lfloor>real_of_int (2 * (int a + 1) * (int b + 1) + (int k + 1)) / real_of_int (2 * (int k + 1))\<rfloor> - 1"
    by linarith
  finally show ?thesis by (simp only: floor_divide_of_int_eq)
qed

lemma chapmanRaw_ge_max:
  assumes "k \<le> min a b"
  shows "real (max a b) \<le> chapmanRaw a b k"
proof -
  have "(real (max a b) + 1) * (real k + 1) \<le> (real (max a b) + 1) * (real (min a b) + 1)"
    using assms by (intro mult_left_mono) auto
  also have "\<dots> = (real a + 1) * (real b + 1)"
    by (cases "a \<le> b") (simp_all add: max_def min_def)
  finally have "real (max a b) + 1 \<le> ((real a + 1) * (real b + 1)) / (real k + 1)"
    by (simp add: pos_le_divide_eq)
  then show ?thesis by (simp add: chapmanRaw_def)
qed

lemma chapmanVariance_nonneg:
  assumes "k \<le> min a b"
  shows "0 \<le> chapmanVariance a b k"
  using assms by (simp add: chapmanVariance_def)

text \<open>
  Claim C1. The point estimate that \<^verbatim>\<open>computeCaptureRecapture\<close> returns is the Chapman
  formula \<open>(n1 + 1)(n2 + 1) / (m + 1) - 1\<close> rounded to the nearest integer, which in
  integer arithmetic is \<open>(2 (n1 + 1)(n2 + 1) + (m + 1)) div (2 (m + 1)) - 1\<close>; for
  \<open>n1 = 20\<close>, \<open>n2 = 15\<close>, \<open>m = 5\<close> it is 55.
\<close>

theorem chapman_point_estimate:
  "chapmanEstimate (computeCaptureRecapture
      \<lparr>uniqueRecipients = a, uniqueNominators = b, totalUnique = t, overlap = Some k\<rparr>)
     = Some (jsRound (((real a + 1) * (real b + 1)) / (real k + 1) - 1))
   \<and> chapmanEstimate (computeCaptureRecapture
      \<lparr>uniqueRecipients = a, uniqueNominators = b, totalUnique = t, overlap = Some k\<rparr>)
     = Some ((2 * (int a + 1) * (int b + 1) + (int k + 1)) div (2 * (int k + 1)) - 1)
   \<and> chapmanEstimate (computeCaptureRecapture
      \<lparr>uniqueRecipients = 20, uniqueNominators = 15, totalUnique = t, overlap = Some 5\<rparr>)
     = Some 55"
proof -
  have e: "chapmanEstimate (computeCaptureRecapture
      \<lparr>uniqueRecipients = x, uniqueNominators = y, totalUnique = t, overlap = Some z\<rparr>)
     = Some (jsRound (chapmanRaw x y z))" for x y z
    by (simp add: computeCaptureRecapture_def Let_def)
  have "jsRound (chapmanRaw 20 15 5) = 55"
    by (simp add: chapmanRaw_int)
  then show ?thesis
    using e chapmanRaw_int [of a b k] by (simp add: chapmanRaw_def)
qed

text \<open>
  Claim C2. When the overlap \<open>m\<close> is at most \<open>min n1 n2\<close>, the point estimate returned is a
  number and is at least \<open>max n1 n2\<close>, and both ends of the 95% interval are numbers, the
  lower one at least \<open>max n1 n2\<close>.
\<close>

theorem chapman_at_least_larger_sample:
  assumes "overlap tc = Some k"
    and "k \<le> min (uniqueRecipients tc) (uniqueNominators tc)"
  shows "\<exists>e lo hi.
      chapmanEstimate (computeCaptureRecapture tc) = Some e
    \<and> int (max (uniqueRecipients tc) (uniqueNominators tc)) \<le> e
    \<and> ci95 (computeCaptureRecapture tc) = (Some lo, Some hi)
    \<and> int (max (uniqueRecipients tc) (uniqueNominators tc)) \<le> lo"
proof -
  let ?a = "uniqueRecipients tc" and ?b = "uniqueNominators tc"
  have v: "jsSqrt (chapmanVariance ?a ?b k) = Some (sqrt (chapmanVariance ?a ?b k))"
    using chapmanVariance_nonneg [OF assms(2)] by (simp add: jsSqrt_def)
  have 1: "chapmanEstimate (computeCaptureRecapture tc) = Some (jsRound (chapmanRaw ?a ?b k))"
    using assms(1) by (simp add: computeCaptureRecapture_def Let_def)
  have 2: "int (max ?a ?b) \<le> jsRound (chapmanRaw ?a ?b k)"
    using chapmanRaw_ge_max [OF assms(2)] by (intro jsRound_ge) simp
  have 3: "ci95 (computeCaptureRecapture tc) =
      (Some (jsRound (max (chapmanRaw ?a ?b k - 1.96 * sqrt (chapmanVariance ?a ?b k))
                          (real (max ?a ?b)))),
       Some (jsRound (chapmanRaw ?a ?b k + 1.96 * sqrt (chapmanVariance ?a ?b k))))"
    using assms(1) v by (simp add: computeCaptureRecapture_def Let_def)
  have 4: "int (max ?a ?b) \<le>
      jsRound (max (chapmanRaw ?a ?b k - 1.96 * sqrt (chapmanVariance ?a ?b k)) (real (max ?a ?b)))"
    by (intro jsRound_ge) simp
  show ?thesis using 1 2 3 4 by blast
qed

theorem chapman_at_least_larger_sample_witness:
  "\<exists>e lo hi.
      chapmanEstimate (computeCaptureRecapture
        \<lparr>uniqueRecipients = 20, uniqueNominators = 15, totalUnique = Some 30, overlap = Some 5\<rparr>)
        = Some e
    \<and> 20 \<le> e
    \<and> ci95 (computeCaptureRecapture
        \<lparr>uniqueRecipients = 20, uniqueNominators = 15, totalUnique = Some 30, overlap = Some 5\<rparr>)
        = (Some lo, Some hi)
    \<and> 20 \<le> lo"
  using chapman_at_least_larger_sample
    [of "\<lparr>uniqueRecipients = 20, uniqueNominators = 15, totalUnique = Some 30, overlap = Some 5\<rparr>" 5]
  by simp

section \<open>Properties of the percentile function\<close>

lemma sorted_first_Min:
  assumes "sorted (xs :: real list)" "xs \<noteq> []"
  shows "xs ! 0 = Min (set xs)"
proof -
  have "\<And>y. y \<in> set xs \<Longrightarrow> xs ! 0 \<le> y"
    using assms(1) by (metis in_set_conv_nth sorted_nth_mono zero_le)
  moreover have "xs ! 0 \<in> set xs" using assms(2) by simp
  ultimately show ?thesis by (intro Min_eqI [symmetric]) auto
qed

lemma sorted_last_Max:
  assumes "sorted (xs :: real list)" "xs \<noteq> []"
  shows "xs ! (length xs - 1) = Max (set xs)"
proof -
  have "\<And>y. y \<in> set xs \<Longrightarrow> y \<le> xs ! (length xs - 1)"
  proof -
    fix y assume "y \<in> set xs"
    then obtain i where "i < length xs" "xs ! i = y" by (auto simp: in_set_conv_nth)
    then show "y \<le> xs ! (length xs - 1)"
      using sorted_nth_mono [OF assms(1), of i "length xs - 1"] by auto
  qed
  moreover have "xs ! (length xs - 1) \<in> set xs" using assms(2) by simp
  ultimately show ?thesis by (intro Max_eqI [symmetric]) auto
qed

lemma percentile_at_integer_rank:
  assumes "p / 100 * (real (length xs) - 1) = real k" "k < length xs"
  shows "percentile xs p = Some (xs ! k)"
  using assms by (simp add: percentile_def Let_def jsIndex_def)

lemma percentile_general:
  assumes "xs \<noteq> []" "0 \<le> p" "p \<le> 100"
  shows "percentile xs p =
     Some (xs ! nat \<lfloor>p / 100 * (real (length xs) - 1)\<rfloor> +
           (xs ! nat \<lceil>p / 100 * (real (length xs) - 1)\<rceil> - xs ! nat \<lfloor>p / 100 * (real (length xs) - 1)\<rfloor>) *
           (p / 100 * (real (length xs) - 1) - real_of_int \<lfloor>p / 100 * (real (length xs) - 1)\<rfloor>))"
proof -
  define r where "r = p / 100 * (real (length xs) - 1)"
  have n: "1 \<le> real (length xs)" using assms(1) by (cases xs) auto
  have r0: "0 \<le> r" unfolding r_def using assms(2) n by simp
  have "p / 100 \<le> 1" using assms(3) by simp
  then have "r \<le> 1 * (real (length xs) - 1)"
    unfolding r_def using n by (intro mult_right_mono) auto
  then have r1: "r \<le> real_of_int (int (length xs) - 1)" by simp
  have lo0: "0 \<le> \<lfloor>r\<rfloor>" using r0 by simp
  have hi0: "0 \<le> \<lceil>r\<rceil>" using r0 by (simp add: zero_le_ceiling)
  have hi1: "\<lceil>r\<rceil> \<le> int (length xs) - 1" using r1 by (rule ceiling_le)
  have lo1: "\<lfloor>r\<rfloor> \<le> int (length xs) - 1" using r1 by (simp add: le_floor_iff floor_le_iff) linarith
  have unf: "percentile xs p =
      (if \<lfloor>r\<rfloor> = \<lceil>r\<rceil> then jsIndex xs \<lfloor>r\<rfloor>
       else (case (jsIndex xs \<lfloor>r\<rfloor>, jsIndex xs \<lceil>r\<rceil>) of
               (Some a, Some b) \<Rightarrow> Some (a + (b - a) * (r - real_of_int \<lfloor>r\<rfloor>))
             | _ \<Rightarrow> None))"
    unfolding percentile_def Let_def r_def by (rule refl)
  have ilo: "jsIndex xs \<lfloor>r\<rfloor> = Some (xs ! nat \<lfloor>r\<rfloor>)"
    using lo0 lo1 by (simp add: jsIndex_def)
  have ihi: "jsIndex xs \<lceil>r\<rceil> = Some (xs ! nat \<lceil>r\<rceil>)"
    using hi0 hi1 by (simp add: jsIndex_def)
  have "percentile xs p =
      Some (xs ! nat \<lfloor>r\<rfloor> + (xs ! nat \<lceil>r\<rceil> - xs ! nat \<lfloor>r\<rfloor>) * (r - real_of_int \<lfloor>r\<rfloor>))"
  proof (cases "\<lfloor>r\<rfloor> = \<lceil>r\<rceil>")
    case True
    then show ?thesis unfolding unf using ilo by simp
  next
    case False
    then show ?thesis unfolding unf using ilo ihi by simp
  qed
  then show ?thesis unfolding r_def .
qed

lemma percentile_50:
  assumes "xs \<noteq> []"
  shows "percentile xs 50 = Some (true_median xs)"
proof (cases "odd (length xs)")
  case True
  then obtain k where k: "length xs = 2 * k + 1" by (auto elim: oddE)
  have "percentile xs 50 = Some (xs ! k)"
    by (rule percentile_at_integer_rank) (simp_all add: k)
  then show ?thesis using True k by (simp add: true_median_def Let_def)
next
  case False
  then obtain k where k: "length xs = 2 * k" by (auto elim: evenE)
  with assms have k0: "0 < k" by (cases k) auto
  define r :: real where "r = 50 / 100 * (real (length xs) - 1)"
  have r: "r = real k - 1 / 2" by (simp add: r_def k)
  have lo: "\<lfloor>r\<rfloor> = int k - 1" unfolding r by (simp add: floor_eq_iff) 
  have hi: "\<lceil>r\<rceil> = int k" unfolding r by (simp add: ceiling_eq_iff)
  have n1: "nat (int k - 1) = k - 1" by simp
  have unf: "percentile xs 50 =
      (if \<lfloor>r\<rfloor> = \<lceil>r\<rceil> then jsIndex xs \<lfloor>r\<rfloor>
       else (case (jsIndex xs \<lfloor>r\<rfloor>, jsIndex xs \<lceil>r\<rceil>) of
               (Some a, Some b) \<Rightarrow> Some (a + (b - a) * (r - real_of_int \<lfloor>r\<rfloor>))
             | _ \<Rightarrow> None))"
    unfolding percentile_def Let_def r_def by (rule refl)
  have "percentile xs 50 = Some (xs ! (k - 1) + (xs ! k - xs ! (k - 1)) * (1 / 2))"
    unfolding unf lo hi using k0 by (simp add: jsIndex_def k n1 r)
  then show ?thesis using False k k0 by (simp add: true_median_def Let_def field_simps)
qed

text \<open>
  Claim C3. For a non-empty sorted list and \<open>0 \<le> p \<le> 100\<close>, \<^verbatim>\<open>percentile\<close> returns the
  linear interpolation between the order statistics at the floor and the ceiling of the rank
  \<open>p / 100 * (n - 1)\<close>; at 50 this is the median, at 0 the minimum and at 100 the maximum.
\<close>

theorem percentile_interpolation_median_min_max:
  assumes "xs \<noteq> []" and "sorted xs" and "0 \<le> p" and "p \<le> 100"
  shows "percentile xs p =
     Some (xs ! nat \<lfloor>p / 100 * (real (length xs) - 1)\<rfloor> +
           (xs ! nat \<lceil>p / 100 * (real (length xs) - 1)\<rceil> - xs ! nat \<lfloor>p / 100 * (real (length xs) - 1)\<rfloor>) *
           (p / 100 * (real (length xs) - 1) - real_of_int \<lfloor>p / 100 * (real (length xs) - 1)\<rfloor>))
   \<and> percentile xs 50 = Some (true_median xs)
   \<and> percentile xs 0 = Some (Min (set xs))
   \<and> percentile xs 100 = Some (Max (set xs))"
proof -
  have a: "percentile xs 0 = Some (xs ! 0)"
    using assms(1) by (intro percentile_at_integer_rank) simp_all
  have b: "percentile xs 100 = Some (xs ! (length xs - 1))"
    using assms(1) by (intro percentile_at_integer_rank) (cases xs, simp_all)
  show ?thesis
    using percentile_general [OF assms(1,3,4)] percentile_50 [OF assms(1)] a b
      sorted_first_Min [OF assms(2,1)] sorted_last_Max [OF assms(2,1)]
    by simp
qed

theorem percentile_interpolation_median_min_max_witness:
  "percentile [1, 2, 4, 8] 25 = Some (7 / 4)
   \<and> percentile [1, 2, 4, 8] 50 = Some 3
   \<and> percentile [1, 2, 4, 8] 0 = Some 1
   \<and> percentile [1, 2, 4, 8] 100 = Some 8"
  using percentile_interpolation_median_min_max [of "[1, 2, 4, 8]" 25]
  by (simp add: true_median_def)

section \<open>Properties of the interaction pairs\<close>

lemma interactions_processCSV:
  "interactions (processCSVToRawData rows) = computeInteractions rows"
  by (simp add: processCSVToRawData_def)

text \<open>
  Claim C9. The number of reciprocal pairs reported is at most half the number of distinct
  ordered pairs, rounded down.
\<close>

theorem bidirectional_pairs_at_most_half:
  "bidirectional_pairs (interactions (processCSVToRawData rows))
     \<le> unique_pairs (interactions (processCSVToRawData rows)) div 2"
proof -
  let ?pc = "collectPairs rows"
  let ?bi = "length (filter (\<lambda>p. pairKey (recipient p) (nominator p) \<in> set (map fst ?pc) \<and>
                                  nominator p \<noteq> recipient p) (map snd ?pc))"
  have "?bi \<le> length (map snd ?pc)" by (rule length_filter_le)
  then have "?bi div 2 \<le> length (map snd ?pc) div 2" by (rule div_le_mono)
  then show ?thesis
    by (simp add: interactions_processCSV computeInteractions_def Let_def)
qed

theorem bidirectional_pairs_at_most_half_witness:
  "unique_pairs (interactions (processCSVToRawData
      [\<lparr>message = ''hi'', award_title = ''Star'', recipient_title = ''Eng I'', nominator_title = ''Eng II''\<rparr>,
       \<lparr>message = ''hi'', award_title = ''Star'', recipient_title = ''Eng II'', nominator_title = ''Eng I''\<rparr>])) = 2
   \<and> bidirectional_pairs (interactions (processCSVToRawData
      [\<lparr>message = ''hi'', award_title = ''Star'', recipient_title = ''Eng I'', nominator_title = ''Eng II''\<rparr>,
       \<lparr>message = ''hi'', award_title = ''Star'', recipient_title = ''Eng II'', nominator_title = ''Eng I''\<rparr>])) = 1"
proof -
  let ?rows = "[\<lparr>message = ''hi'', award_title = ''Star'', recipient_title = ''Eng I'', nominator_title = ''Eng II''\<rparr>,
       \<lparr>message = ''hi'', award_title = ''Star'', recipient_title = ''Eng II'', nominator_title = ''Eng I''\<rparr>]"
  have u: "unique_pairs (interactions (processCSVToRawData ?rows)) = 2"
    by (simp add: interactions_processCSV computeInteractions_def collectPairs_def pairKey_def
          trim_def isWhite_def Let_def)
  have "1 \<le> bidirectional_pairs (interactions (processCSVToRawData ?rows))"
    by (simp add: interactions_processCSV computeInteractions_def collectPairs_def pairKey_def
          trim_def isWhite_def Let_def)
  with bidirectional_pairs_at_most_half [of ?rows] u show ?thesis by simp
qed

section \<open>Properties of the subcategory format\<close>

text \<open>
  Claim C4, as amended. The format of a subcategory value is decided by the first test that
  holds, in this order: the value is null, empty or exactly \<open>null\<close>, \<open>None\<close> or \<open>N/A\<close>; the
  trimmed value is a subcategory id of the taxonomy; it is one capital letter; a capital
  letter and a digit; a capital letter, a digit and a small letter; one small letter; it is
  a subcategory id without its trailing small letters; it properly extends such a prefix;
  otherwise it is unrecognized. Each label is returned exactly when its test holds and no
  earlier one does.
\<close>

theorem subcategory_format_cascade:
  "(detectSubcategoryFormat sub ids = ''Null / Empty'' \<longleftrightarrow> isNullish sub)
 \<and> (detectSubcategoryFormat sub ids = ''Correct (matches taxonomy)'' \<longleftrightarrow>
      \<not> isNullish sub \<and> trim (subText sub) \<in> set ids)
 \<and> (detectSubcategoryFormat sub ids = ''Letter only (A, B, C)'' \<longleftrightarrow>
      \<not> isNullish sub \<and> trim (subText sub) \<notin> set ids
      \<and> matchesClasses [isUpper] (trim (subText sub)))
 \<and> (detectSubcategoryFormat sub ids = ''Letter+number (A1, B2)'' \<longleftrightarrow>
      \<not> isNullish sub \<and> trim (subText sub) \<notin> set ids
      \<and> \<not> matchesClasses [isUpper] (trim (subText sub))
      \<and> matchesClasses [isUpper, isDigit] (trim (subText sub)))
 \<and> (detectSubcategoryFormat sub ids = ''Alt prefix (A2b, B1a)'' \<longleftrightarrow>
      \<not> isNullish sub \<and> trim (subText sub) \<notin> set ids
      \<and> \<not> matchesClasses [isUpper] (trim (subText sub))
      \<and> \<not> matchesClasses [isUpper, isDigit] (trim (subText sub))
      \<and> matchesClasses [isUpper, isDigit, isLower] (trim (subText sub)))
 \<and> (detectSubcategoryFormat sub ids = ''Lowercase letter (a, b, c)'' \<longleftrightarrow>
      \<not> isNullish sub \<and> trim (subText sub) \<notin> set ids
      \<and> \<not> matchesClasses [isUpper] (trim (subText sub))
      \<and> \<not> matchesClasses [isUpper, isDigit] (trim (subText sub))
      \<and> \<not> matchesClasses [isUpper, isDigit, isLower] (trim (subText sub))
      \<and> matchesClasses [isLower] (trim (subText sub)))
 \<and> (detectSubcategoryFormat sub ids = ''Category ID as subcategory'' \<longleftrightarrow>
      \<not> isNullish sub \<and> trim (subText sub) \<notin> set ids
      \<and> \<not> matchesClasses [isUpper] (trim (subText sub))
      \<and> \<not> matchesClasses [isUpper, isDigit] (trim (subText sub))
      \<and> \<not> matchesClasses [isUpper, isDigit, isLower] (trim (subText sub))
      \<and> \<not> matchesClasses [isLower] (trim (subText sub))
      \<and> isCatId (trim (subText sub)) ids)
 \<and> (detectSubcategoryFormat sub ids = ''Wrong category prefix'' \<longleftrightarrow>
      \<not> isNullish sub \<and> trim (subText sub) \<notin> set ids
      \<and> \<not> matchesClasses [isUpper] (trim (subText sub))
      \<and> \<not> matchesClasses [isUpper, isDigit] (trim (subText sub))
      \<and> \<not> matchesClasses [isUpper, isDigit, isLower] (trim (subText sub))
      \<and> \<not> matchesClasses [isLower] (trim (subText sub))
      \<and> \<not> isCatId (trim (subText sub)) ids
      \<and> extendsCatPrefix (trim (subText sub)) ids)
 \<and> (detectSubcategoryFormat sub ids = ''Other / Unrecognized'' \<longleftrightarrow>
      \<not> isNullish sub \<and> trim (subText sub) \<notin> set ids
      \<and> \<not> matchesClasses [isUpper] (trim (subText sub))
      \<and> \<not> matchesClasses [isUpper, isDigit] (trim (subText sub))
      \<and> \<not> matchesClasses [isUpper, isDigit, isLower] (trim (subText sub))
      \<and> \<not> matchesClasses [isLower] (trim (subText sub))
      \<and> \<not> isCatId (trim (subText sub)) ids
      \<and> \<not> extendsCatPrefix (trim (subText sub)) ids)"
  unfolding detectSubcategoryFormat_def Let_def by simp

theorem subcategory_format_cascade_witness:
  "detectSubcategoryFormat (Some ''C1'') [''C1a'', ''C2b''] = ''Letter+number (A1, B2)''
   \<and> isCatId ''C1'' [''C1a'', ''C2b'']"
proof -
  have "\<not> isNullish (Some ''C1'') \<and> trim (subText (Some ''C1'')) \<notin> set [''C1a'', ''C2b'']
      \<and> \<not> matchesClasses [isUpper] (trim (subText (Some ''C1'')))
      \<and> matchesClasses [isUpper, isDigit] (trim (subText (Some ''C1'')))
      \<and> isCatId ''C1'' [''C1a'', ''C2b'']"
    by code_simp
  then show ?thesis
    using subcategory_format_cascade [of "Some ''C1''" "[''C1a'', ''C2b'']"] by blast
qed

theorem null_marker_in_taxonomy_counterexample:
  "''N/A'' \<in> set [''C1a'', ''N/A'']
   \<and> detectSubcategoryFormat (Some ''N/A'') [''C1a'', ''N/A''] = ''Null / Empty''
   \<and> detectSubcategoryFormat (Some ''N/A'') [''C1a'', ''N/A''] \<noteq> ''Correct (matches taxonomy)''"
  by (simp add: detectSubcategoryFormat_def isNullish_def)

section \<open>Properties of seniority inference\<close>

lemma firstMatch_None_iff:
  "firstMatch ps t = None \<longleftrightarrow> (\<forall>p \<in> set ps. \<not> regexTest (fst p) t)"
  by (induction ps) (auto split: if_splits)

lemma firstMatch_Some_iff:
  "firstMatch ps t = Some l \<longleftrightarrow>
     (\<exists>i < length ps. snd (ps ! i) = l \<and> regexTest (fst (ps ! i)) t \<and>
        (\<forall>j < i. \<not> regexTest (fst (ps ! j)) t))"
proof (induction ps)
  case Nil
  then show ?case by simp
next
  case (Cons p ps)
  obtain pat lvl where p: "p = (pat, lvl)" by (cases p)
  show ?case
  proof (cases "regexTest pat t")
    case True
    have "(\<exists>i < length (p # ps). snd ((p # ps) ! i) = l \<and> regexTest (fst ((p # ps) ! i)) t \<and>
        (\<forall>j < i. \<not> regexTest (fst ((p # ps) ! j)) t)) \<longleftrightarrow> lvl = l"
    proof
      assume "\<exists>i < length (p # ps). snd ((p # ps) ! i) = l \<and> regexTest (fst ((p # ps) ! i)) t \<and>
        (\<forall>j < i. \<not> regexTest (fst ((p # ps) ! j)) t)"
      then obtain i where i: "snd ((p # ps) ! i) = l" "\<forall>j < i. \<not> regexTest (fst ((p # ps) ! j)) t"
        by blast
      have "i = 0"
      proof (rule ccontr)
        assume "i \<noteq> 0"
        then have "\<not> regexTest (fst ((p # ps) ! 0)) t" using i(2) by blast
        then show False using True p by simp
      qed
      then show "lvl = l" using i(1) p by simp
    next
      assume "lvl = l"
      then have "snd ((p # ps) ! 0) = l \<and> regexTest (fst ((p # ps) ! 0)) t \<and>
        (\<forall>j < 0. \<not> regexTest (fst ((p # ps) ! j)) t)" using True p by simp
      then show "\<exists>i < length (p # ps). snd ((p # ps) ! i) = l \<and> regexTest (fst ((p # ps) ! i)) t \<and>
        (\<forall>j < i. \<not> regexTest (fst ((p # ps) ! j)) t)" by blast
    qed
    then show ?thesis using True p by simp
  next
    case False
    have "(\<exists>i < length (p # ps). snd ((p # ps) ! i) = l \<and> regexTest (fst ((p # ps) ! i)) t \<and>
        (\<forall>j < i. \<not> regexTest (fst ((p # ps) ! j)) t)) \<longleftrightarrow>
      (\<exists>i < length ps. snd (ps ! i) = l \<and> regexTest (fst (ps ! i)) t \<and>
        (\<forall>j < i. \<not> regexTest (fst (ps ! j)) t))" (is "?L \<longleftrightarrow> ?R")
    proof
      assume ?L
      then obtain i where i: "i < length (p # ps)" "snd ((p # ps) ! i) = l"
        "regexTest (fst ((p # ps) ! i)) t" "\<forall>j < i. \<not> regexTest (fst ((p # ps) ! j)) t"
        by blast
      from i(3) False p obtain k where k: "i = Suc k" by (cases i) auto
      have "\<forall>j < k. \<not> regexTest (fst (ps ! j)) t"
      proof (intro allI impI)
        fix j assume "j < k"
        then have "Suc j < i" using k by simp
        then have "\<not> regexTest (fst ((p # ps) ! Suc j)) t" using i(4) by blast
        then show "\<not> regexTest (fst (ps ! j)) t" by simp
      qed
      then show ?R using i k by auto
    next
      assume ?R
      then obtain i where i: "i < length ps" "snd (ps ! i) = l"
        "regexTest (fst (ps ! i)) t" "\<forall>j < i. \<not> regexTest (fst (ps ! j)) t"
        by blast
      have "\<forall>j < Suc i. \<not> regexTest (fst ((p # ps) ! j)) t"
      proof (intro allI impI)
        fix j assume "j < Suc i"
        then show "\<not> regexTest (fst ((p # ps) ! j)) t"
          using False p i(4) by (cases j) auto
      qed
      then have "Suc i < length (p # ps) \<and> snd ((p # ps) ! Suc i) = l \<and>
          regexTest (fst ((p # ps) ! Suc i)) t \<and> (\<forall>j < Suc i. \<not> regexTest (fst ((p # ps) ! j)) t)"
        using i by simp
      then show ?L by blast
    qed
    then show ?thesis using False p Cons.IH by simp
  qed
qed

lemma bump_sum: "sum_list (map snd (bump k d)) = Suc (sum_list (map snd d))"
  by (induction d) auto

lemma extractSeniority_level_nonempty: "extractSeniority t = Some l \<Longrightarrow> l \<noteq> []"
  by (auto simp: extractSeniority_def SENIORITY_PATTERNS_def split: if_splits)

lemma fold_dist_sum:
  "sum_list (map snd (fold (\<lambda>t dist. case extractSeniority t of
                       None \<Rightarrow> dist
                     | Some level \<Rightarrow> if level = [] then dist else bump level dist) ts acc)) =
     sum_list (map snd acc) + length (filter (\<lambda>t. extractSeniority t \<noteq> None) ts)"
proof (induction ts arbitrary: acc)
  case Nil
  then show ?case by simp
next
  case (Cons t ts)
  show ?case
  proof (cases "extractSeniority t")
    case None
    then show ?thesis using Cons.IH [of acc] by simp
  next
    case (Some l)
    then have "l \<noteq> []" by (rule extractSeniority_level_nonempty)
    then show ?thesis using Some Cons.IH [of "bump l acc"] by (simp add: bump_sum)
  qed
qed

lemma buildSeniorityDist_total:
  "sum_list (map snd (buildSeniorityDist ts)) = length (filter (\<lambda>t. extractSeniority t \<noteq> None) ts)"
  unfolding buildSeniorityDist_def by (simp add: fold_dist_sum)

lemma buildSeniorityDist_skip:
  "extractSeniority t = None \<Longrightarrow> buildSeniorityDist (ts @ [t]) = buildSeniorityDist ts"
  unfolding buildSeniorityDist_def by simp

lemma senior_manager_levels:
  assumes "regexTest (True, ''Senior Manager'') t"
  shows "extractSeniority t \<in> {Some ''Vice President'', Some ''VP'', Some ''Director'',
            Some ''Principal'', Some ''Manager''}"
  using assms by (simp add: extractSeniority_def SENIORITY_PATTERNS_def)

lemma senior_manager_is_manager:
  assumes "regexTest (True, ''Senior Manager'') t"
    and "\<not> regexTest (True, ''Vice President'') t" and "\<not> regexTest (False, ''VP'') t"
    and "\<not> regexTest (True, ''Director'') t" and "\<not> regexTest (True, ''Principal'') t"
  shows "extractSeniority t = Some ''Manager''"
  using assms by (simp add: extractSeniority_def SENIORITY_PATTERNS_def)

lemma toUpperChar_cases:
  "c \<in> set lowerLetters \<or> toUpperChar c = c"
  by (auto simp: toUpperChar_def lowerLetters_def upperLetters_def split: option.splits if_splits)

lemma isWordChar_toUpperChar: "isWordChar (toUpperChar c) = isWordChar c"
proof -
  consider "c \<in> set lowerLetters" | "toUpperChar c = c" using toUpperChar_cases by blast
  then show ?thesis
  proof cases
    case 1
    then show ?thesis
      unfolding lowerLetters_def
      by (auto simp: toUpperChar_def lowerLetters_def upperLetters_def isWordChar_def
            isUpper_def isLower_def isDigit_def)
  next
    case 2
    then show ?thesis by simp
  qed
qed

lemma isWordChar_fold: "toUpperChar c = toUpperChar c' \<Longrightarrow> isWordChar c = isWordChar c'"
  by (metis isWordChar_toUpperChar)

lemma isWordOpt_fold:
  "map_option toUpperChar a = map_option toUpperChar b \<Longrightarrow> isWordOpt a = isWordOpt b"
  by (cases a; cases b) (auto simp: isWordOpt_def dest: isWordChar_fold)

lemma firstChar_fold:
  "map toUpperChar s = map toUpperChar s' \<Longrightarrow>
   map_option toUpperChar (firstChar s) = map_option toUpperChar (firstChar s')"
  by (cases s; cases s') (auto simp: firstChar_def)

lemma lastCharAfter_fold:
  assumes "map toUpperChar s = map toUpperChar s'"
    and "map_option toUpperChar a = map_option toUpperChar b"
  shows "map_option toUpperChar (lastCharAfter a s) = map_option toUpperChar (lastCharAfter b s')"
proof (cases "s = []")
  case True
  then have "s' = []" using assms(1) by simp
  then show ?thesis using True assms(2) by (simp add: lastCharAfter_def)
next
  case False
  then have s': "s' \<noteq> []" using assms(1) by auto
  have "toUpperChar (last s) = last (map toUpperChar s)" using False by (simp add: last_map)
  also have "\<dots> = toUpperChar (last s')" using s' assms(1) by (simp add: last_map)
  finally show ?thesis using False s' by (simp add: lastCharAfter_def)
qed

lemma list_all2_charEq_ci:
  "list_all2 (charEq True) lit xs \<longleftrightarrow> map toUpperChar lit = map toUpperChar xs"
  by (induction lit arbitrary: xs) (auto simp: charEq_def list_all2_Cons1)

lemma matchHere_ci_fold:
  assumes "map toUpperChar s = map toUpperChar s'"
    and "map_option toUpperChar a = map_option toUpperChar b"
  shows "matchHere True lit a s = matchHere True lit b s'"
proof -
  have len: "length s = length s'" using assms(1) by (rule map_eq_imp_length_eq)
  have tk: "map toUpperChar (take n s) = map toUpperChar (take n s')" for n
    using assms(1) by (simp add: take_map [symmetric])
  have dr: "map toUpperChar (drop n s) = map toUpperChar (drop n s')" for n
    using assms(1) by (simp add: drop_map [symmetric])
  have 1: "wordBoundary a (firstChar s) = wordBoundary b (firstChar s')"
    unfolding wordBoundary_def
    using isWordOpt_fold [OF assms(2)] isWordOpt_fold [OF firstChar_fold [OF assms(1)]] by simp
  have 2: "wordBoundary (lastCharAfter a (take n s)) (firstChar (drop n s)) =
           wordBoundary (lastCharAfter b (take n s')) (firstChar (drop n s'))" for n
    unfolding wordBoundary_def
    using isWordOpt_fold [OF lastCharAfter_fold [OF tk assms(2)]]
          isWordOpt_fold [OF firstChar_fold [OF dr]] by simp
  show ?thesis
    unfolding matchHere_def list_all2_charEq_ci using 1 2 len tk by simp
qed

lemma searchFrom_ci_fold:
  assumes "map toUpperChar s = map toUpperChar s'"
    and "map_option toUpperChar a = map_option toUpperChar b"
  shows "searchFrom True lit a s = searchFrom True lit b s'"
  using assms
proof (induction s arbitrary: s' a b)
  case Nil
  then have "s' = []" by simp
  then show ?case using matchHere_ci_fold [of "[]" "[]" a b lit] Nil by simp
next
  case (Cons c cs)
  then obtain c' cs' where s': "s' = c' # cs'" "toUpperChar c = toUpperChar c'"
    "map toUpperChar cs = map toUpperChar cs'" by (cases s') auto
  have "matchHere True lit a (c # cs) = matchHere True lit b (c' # cs')"
    using matchHere_ci_fold [of "c # cs" "c' # cs'" a b lit] s' Cons.prems(2) by simp
  moreover have "searchFrom True lit (Some c) cs = searchFrom True lit (Some c') cs'"
    using Cons.IH [of cs' "Some c" "Some c'"] s' by simp
  ultimately show ?case using s' by simp
qed

lemma regexTest_ci_fold:
  assumes "fst pat" and "map toUpperChar t = map toUpperChar t'"
  shows "regexTest pat t = regexTest pat t'"
  using searchFrom_ci_fold [OF assms(2), of None None "snd pat"] assms(1)
  by (simp add: regexTest_def)

lemma matchHere_cs_subset: "matchHere False lit a s \<Longrightarrow> set lit \<subseteq> set s"
proof -
  assume "matchHere False lit a s"
  then have "list_all2 (=) lit (take (length lit) s)"
    by (simp add: matchHere_def charEq_def [abs_def])
  then have "lit = take (length lit) s" by (simp add: list_all2_eq)
  then show ?thesis by (metis set_take_subset)
qed

lemma searchFrom_cs_subset: "searchFrom False lit a s \<Longrightarrow> set lit \<subseteq> set s"
proof (induction s arbitrary: a)
  case Nil
  then show ?case using matchHere_cs_subset [of lit a "[]"] by simp
next
  case (Cons c cs)
  then show ?case using matchHere_cs_subset [of lit a "c # cs"] by auto
qed

lemma vice_president_any_case:
  assumes "map toUpperChar s = ''VICE PRESIDENT''"
  shows "extractSeniority s = Some ''Vice President''"
proof -
  have "map toUpperChar s = map toUpperChar ''VICE PRESIDENT''"
    using assms by (simp add: toUpperChar_def lowerLetters_def upperLetters_def)
  then have "regexTest (True, ''Vice President'') s = regexTest (True, ''Vice President'') ''VICE PRESIDENT''"
    by (intro regexTest_ci_fold) simp_all
  also have "\<dots>" by code_simp
  finally show ?thesis by (simp add: extractSeniority_def SENIORITY_PATTERNS_def)
qed

lemma lowercase_vp_no_signal:
  assumes "CHR ''V'' \<notin> set t \<or> CHR ''P'' \<notin> set t"
    and "\<forall>r \<in> set SENIORITY_PATTERNS. snd (fst r) \<noteq> ''VP'' \<longrightarrow> \<not> regexTest (fst r) t"
  shows "extractSeniority t = None"
proof -
  have "\<not> regexTest (False, ''VP'') t"
    using searchFrom_cs_subset [of "''VP''" None t] assms(1) by (auto simp: regexTest_def)
  then show ?thesis
    using assms(2) by (simp add: extractSeniority_def SENIORITY_PATTERNS_def)
qed

lemma only_vp_case_sensitive:
  "map (snd \<circ> fst) (filter (\<lambda>r. \<not> fst (fst r)) SENIORITY_PATTERNS) = [''VP'']"
  by (simp add: SENIORITY_PATTERNS_def)

lemma extractSeniority_ci_first_rule:
  assumes "map toUpperChar t = map toUpperChar t'"
  shows "extractSeniority t = Some ''Vice President'' \<longleftrightarrow> extractSeniority t' = Some ''Vice President''"
proof -
  have "regexTest (True, ''Vice President'') t = regexTest (True, ''Vice President'') t'"
    using assms by (intro regexTest_ci_fold) simp_all
  then show ?thesis by (simp add: extractSeniority_def SENIORITY_PATTERNS_def)
qed

text \<open>
  Claim C6, as amended. The rules are tried in the order of the table and the first that
  matches gives the level. A title in which \<open>Senior Manager\<close> occurs as whole words, in any
  letter case, is never classified \<open>Senior\<close>, and is classified \<open>Manager\<close> when none of the
  four rules before it matches. A title that matches no rule adds nothing to the seniority
  distribution, whose counts sum to the number of titles that match a rule.
\<close>

theorem seniority_first_match_wins:
  "(extractSeniority t = Some l \<longleftrightarrow>
      (\<exists>i < length SENIORITY_PATTERNS.
          snd (SENIORITY_PATTERNS ! i) = l \<and> regexTest (fst (SENIORITY_PATTERNS ! i)) t \<and>
          (\<forall>j < i. \<not> regexTest (fst (SENIORITY_PATTERNS ! j)) t)))
   \<and> map (\<lambda>r. (snd (fst r), snd r)) SENIORITY_PATTERNS =
       [(''Vice President'', ''Vice President''), (''VP'', ''VP''), (''Director'', ''Director''),
        (''Principal'', ''Principal''), (''Senior Manager'', ''Manager''), (''Senior'', ''Senior''),
        (''Lead'', ''Lead''), (''Manager'', ''Manager''), (''Associate'', ''Associate''),
        (''Junior'', ''Junior'')]
   \<and> (regexTest (True, ''Senior Manager'') t \<longrightarrow> extractSeniority t \<noteq> Some ''Senior'')
   \<and> (regexTest (True, ''Senior Manager'') t \<and>
        \<not> regexTest (True, ''Vice President'') t \<and> \<not> regexTest (False, ''VP'') t \<and>
        \<not> regexTest (True, ''Director'') t \<and> \<not> regexTest (True, ''Principal'') t
        \<longrightarrow> extractSeniority t = Some ''Manager'')
   \<and> (extractSeniority t = None \<longrightarrow> buildSeniorityDist (ts @ [t]) = buildSeniorityDist ts)
   \<and> sum_list (map snd (buildSeniorityDist ts)) =
       length (filter (\<lambda>u. extractSeniority u \<noteq> None) ts)"
proof -
  have a: "extractSeniority t = Some l \<longleftrightarrow>
      (\<exists>i < length SENIORITY_PATTERNS.
          snd (SENIORITY_PATTERNS ! i) = l \<and> regexTest (fst (SENIORITY_PATTERNS ! i)) t \<and>
          (\<forall>j < i. \<not> regexTest (fst (SENIORITY_PATTERNS ! j)) t))"
    unfolding extractSeniority_def by (rule firstMatch_Some_iff)
  have b: "map (\<lambda>r. (snd (fst r), snd r)) SENIORITY_PATTERNS =
       [(''Vice President'', ''Vice President''), (''VP'', ''VP''), (''Director'', ''Director''),
        (''Principal'', ''Principal''), (''Senior Manager'', ''Manager''), (''Senior'', ''Senior''),
        (''Lead'', ''Lead''), (''Manager'', ''Manager''), (''Associate'', ''Associate''),
        (''Junior'', ''Junior'')]"
    by (simp add: SENIORITY_PATTERNS_def)
  have c: "regexTest (True, ''Senior Manager'') t \<longrightarrow> extractSeniority t \<noteq> Some ''Senior''"
    using senior_manager_levels [of t] by auto
  show ?thesis
    using a b c senior_manager_is_manager [of t] buildSeniorityDist_skip [of t ts]
      buildSeniorityDist_total [of ts]
    by blast
qed

theorem seniority_first_match_wins_witness:
  "extractSeniority ''Senior Manager'' = Some ''Manager''
   \<and> buildSeniorityDist [''Team Lead'', ''Engineer''] = buildSeniorityDist [''Team Lead'']"
proof -
  have h1: "regexTest (True, ''Senior Manager'') ''Senior Manager'' \<and>
        \<not> regexTest (True, ''Vice President'') ''Senior Manager'' \<and>
        \<not> regexTest (False, ''VP'') ''Senior Manager'' \<and>
        \<not> regexTest (True, ''Director'') ''Senior Manager'' \<and>
        \<not> regexTest (True, ''Principal'') ''Senior Manager''"
    by code_simp
  have h2: "extractSeniority ''Engineer'' = None" by code_simp
  show ?thesis
    using seniority_first_match_wins [of "''Senior Manager''" "''Manager''" "[]"] h1
      seniority_first_match_wins [of "''Engineer''" "''Manager''" "[''Team Lead'']"] h2
    by simp
qed

theorem senior_manager_counterexample:
  "take 14 ''Senior Manager and Director'' = ''Senior Manager''
   \<and> extractSeniority ''Senior Manager and Director'' = Some ''Director''
   \<and> take 14 ''Senior Managers'' = ''Senior Manager''
   \<and> extractSeniority ''Senior Managers'' = Some ''Senior''"
  by code_simp

text \<open>
  Claim C10. The rule \<open>VP\<close> is the only one without the flag \<^verbatim>\<open>i\<close>. A rule with the flag
  gives the same answer on two titles that differ in letter case only; the rule \<open>VP\<close>
  needs the capitals \<open>V\<close> and \<open>P\<close> in the title, so a title without them that matches no
  other rule has no seniority signal; and \<open>vice president\<close> in any letter case is
  classified \<open>Vice President\<close>.
\<close>

theorem vp_rule_alone_case_sensitive:
  "map (snd \<circ> fst) (filter (\<lambda>r. \<not> fst (fst r)) SENIORITY_PATTERNS) = [''VP'']
   \<and> (fst pat \<and> map toUpperChar t = map toUpperChar t' \<longrightarrow> regexTest pat t = regexTest pat t')
   \<and> (regexTest (False, ''VP'') t \<longrightarrow> CHR ''V'' \<in> set t \<and> CHR ''P'' \<in> set t)
   \<and> ((CHR ''V'' \<notin> set t \<or> CHR ''P'' \<notin> set t) \<and>
       (\<forall>r \<in> set SENIORITY_PATTERNS. snd (fst r) \<noteq> ''VP'' \<longrightarrow> \<not> regexTest (fst r) t)
       \<longrightarrow> extractSeniority t = None)
   \<and> (map toUpperChar s = ''VICE PRESIDENT'' \<longrightarrow> extractSeniority s = Some ''Vice President'')
   \<and> (map toUpperChar t = map toUpperChar t' \<longrightarrow>
       (extractSeniority t = Some ''Vice President'' \<longleftrightarrow> extractSeniority t' = Some ''Vice President''))"
proof -
  have "regexTest (False, ''VP'') t \<longrightarrow> CHR ''V'' \<in> set t \<and> CHR ''P'' \<in> set t"
    using searchFrom_cs_subset [of "''VP''" None t] by (auto simp: regexTest_def)
  then show ?thesis
    using only_vp_case_sensitive regexTest_ci_fold [of pat t t'] lowercase_vp_no_signal [of t]
      vice_president_any_case [of s] extractSeniority_ci_first_rule [of t t']
    by blast
qed

theorem vp_rule_alone_case_sensitive_witness:
  "extractSeniority ''vp of sales'' = None
   \<and> extractSeniority ''vIcE pResident'' = Some ''Vice President''
   \<and> extractSeniority ''VP of sales'' = Some ''VP''"
proof -
  have h1: "(CHR ''V'' \<notin> set ''vp of sales'' \<or> CHR ''P'' \<notin> set ''vp of sales'') \<and>
       (\<forall>r \<in> set SENIORITY_PATTERNS. snd (fst r) \<noteq> ''VP'' \<longrightarrow> \<not> regexTest (fst r) ''vp of sales'')"
    by code_simp
  have h2: "map toUpperChar ''vIcE pResident'' = ''VICE PRESIDENT''" by code_simp
  have h3: "extractSeniority ''VP of sales'' = Some ''VP''" by code_simp
  show ?thesis
    using vp_rule_alone_case_sensitive [of "(True, ''Senior'')" "''vp of sales''" "''vp of sales''" "''vIcE pResident''"]
      h1 h2 h3
    by blast
qed

section \<open>Properties of the title overlap\<close>

lemma set_fold_setAdd: "set (fold setAdd xs acc) = set xs \<union> set acc"
  by (induction xs arbitrary: acc) (auto simp: setAdd_def)

lemma distinct_fold_setAdd: "distinct acc \<Longrightarrow> distinct (fold setAdd xs acc)"
  by (induction xs arbitrary: acc) (auto simp: setAdd_def)

lemma set_newSet: "set (newSet xs) = set xs"
  by (simp add: newSet_def set_fold_setAdd)

lemma distinct_newSet: "distinct (newSet xs)"
  by (simp add: newSet_def distinct_fold_setAdd)

lemma newSet_nonempty: "xs \<noteq> [] \<Longrightarrow> newSet (map f xs) \<noteq> []"
  using set_newSet [of "map f xs"] by (cases "newSet (map f xs)") auto

lemma shared_le:
  assumes "distinct rs"
  shows "length (filter (\<lambda>t. t \<in> set ns) rs) \<le> min (length rs) (length ns)"
proof -
  have "distinct (filter (\<lambda>t. t \<in> set ns) rs)" using assms by simp
  then have "length (filter (\<lambda>t. t \<in> set ns) rs) = card (set (filter (\<lambda>t. t \<in> set ns) rs))"
    by (rule distinct_card [symmetric])
  also have "\<dots> \<le> card (set ns)" by (intro card_mono) auto
  also have "\<dots> \<le> length ns" by (rule card_length)
  finally show ?thesis by simp
qed

lemma jsRound_le: "x \<le> real_of_int i \<Longrightarrow> jsRound x \<le> i"
  using jsRound_mono [of x "real_of_int i"] by (simp add: jsRound_of_int)

lemma jsRound_nonneg: "0 \<le> x \<Longrightarrow> 0 \<le> jsRound x"
  using jsRound_ge [of 0 x] by simp

lemma scaled_rate_bounds:
  assumes "s \<le> d" "0 < d"
  shows "0 \<le> jsRound (real s / real d * real n)" "jsRound (real s / real d * real n) \<le> int n"
proof -
  have r: "real s / real d \<le> 1" using assms by simp
  show "0 \<le> jsRound (real s / real d * real n)" by (intro jsRound_nonneg) simp
  have "real s / real d * real n \<le> 1 * real n" using r by (intro mult_right_mono) auto
  then show "jsRound (real s / real d * real n) \<le> int n" by (intro jsRound_le) simp
qed

lemma self_share_bounds:
  "0 \<le> jsRound (real n * 0.3)" "jsRound (real n * 0.3) \<le> int n"
proof -
  show "0 \<le> jsRound (real n * 0.3)" by (intro jsRound_nonneg) simp
  have "real n * 0.3 \<le> real n" by simp
  then show "jsRound (real n * 0.3) \<le> int n" by (intro jsRound_le) simp
qed

text \<open>
  Claim C7, as amended. When both top-15 lists are non-empty, the overlap is a number \<open>k\<close>
  from 1 on and at most \<open>max 1 (min n1 n2)\<close>. It is the overlap derived from the shared
  titles of the top lists (their share, scaled to \<open>min n1 n2\<close> and rounded, with a floor of 1)
  when no self-recognition was counted, and the larger of that and \<open>0.3 * min n1 n2\<close>
  rounded when some was. The estimator's \<open>m\<close> is this overlap.
\<close>

theorem overlap_floor_and_self_recognition:
  assumes "top_15_titles (recipient_stats raw) \<noteq> []"
    and "top_15_titles (nominator_stats raw) \<noteq> []"
  shows "\<exists>e k.
      overlap_from_shared_titles raw = Some e
    \<and> overlap (computeTitleCount raw) = Some k
    \<and> int k = (if self_recognition_count (interactions raw) > 0
               then max e (jsRound (real (min (unique_count (recipient_stats raw))
                                              (unique_count (nominator_stats raw))) * 0.3))
               else e)
    \<and> 1 \<le> k
    \<and> k \<le> max 1 (min (unique_count (recipient_stats raw)) (unique_count (nominator_stats raw)))
    \<and> cr_m (captureRecapture (estimatePopulation raw)) = Some k"
proof -
  define a where "a = unique_count (recipient_stats raw)"
  define b where "b = unique_count (nominator_stats raw)"
  define rs where "rs = newSet (map fst (top_15_titles (recipient_stats raw)))"
  define ns where "ns = newSet (map fst (top_15_titles (nominator_stats raw)))"
  define sh where "sh = length (filter (\<lambda>t. t \<in> set ns) rs)"
  define d where "d = min (length rs) (length ns)"
  define est where "est = jsRound (real sh / real d * real (min a b))"
  define slf where "slf = jsRound (real (min a b) * 0.3)"
  have d0: "0 < d"
    unfolding d_def rs_def ns_def using assms by (simp add: newSet_nonempty)
  have shd: "sh \<le> d"
    unfolding sh_def d_def rs_def by (intro shared_le distinct_newSet)
  note eb = scaled_rate_bounds [OF shd d0, of "min a b", folded est_def]
  note sb = self_share_bounds [of "min a b", folded slf_def]
  have spec: "overlap_from_shared_titles raw = Some (max 1 est)"
    using d0 unfolding overlap_from_shared_titles_def Let_def
      a_def [symmetric] b_def [symmetric] rs_def [symmetric] ns_def [symmetric]
      sh_def [symmetric] d_def [symmetric] est_def
    by simp
  define ov where "ov = (if self_recognition_count (interactions raw) > 0
                         then max est (max slf 1) else max est (max est 1))"
  have code: "overlap (computeTitleCount raw) = Some (nat ov)"
    using d0 unfolding computeTitleCount_def Let_def jsMax3_def ov_def
      a_def [symmetric] b_def [symmetric] rs_def [symmetric] ns_def [symmetric]
      sh_def [symmetric] d_def [symmetric] est_def slf_def
    by simp
  have ov1: "1 \<le> ov" unfolding ov_def by (simp add: max_def)
  have mx: "int (max 1 (min a b)) = max 1 (int (min a b))" by simp
  have ov2: "ov \<le> int (max 1 (min a b))"
  proof (cases "0 < self_recognition_count (interactions raw)")
    case True
    then have "ov = max est (max slf 1)" by (simp add: ov_def)
    then show ?thesis unfolding mx using eb sb by linarith
  next
    case False
    then have "ov = max est (max est 1)" by (simp add: ov_def)
    then show ?thesis unfolding mx using eb by linarith
  qed
  have ov3: "ov = (if self_recognition_count (interactions raw) > 0
               then max (max 1 est) slf else max 1 est)"
    unfolding ov_def by (simp add: max_def)
  have m: "cr_m (captureRecapture (estimatePopulation raw)) = overlap (computeTitleCount raw)"
    by (simp add: estimatePopulation_def computeCaptureRecapture_def Let_def)
  have g3: "int (nat ov) = (if self_recognition_count (interactions raw) > 0
               then max (max 1 est) (jsRound (real (min (unique_count (recipient_stats raw))
                                              (unique_count (nominator_stats raw))) * 0.3))
               else max 1 est)"
    using ov1 ov3 unfolding slf_def a_def b_def by simp
  have g4: "1 \<le> nat ov" using ov1 by simp
  have "nat ov \<le> max 1 (min a b)" using ov2 by simp
  then have g5: "nat ov \<le> max 1 (min (unique_count (recipient_stats raw))
                                       (unique_count (nominator_stats raw)))"
    unfolding a_def b_def .
  have g6: "cr_m (captureRecapture (estimatePopulation raw)) = Some (nat ov)"
    using m code by simp
  show ?thesis using spec code g3 g4 g5 g6 by blast
qed

theorem overlap_floor_and_self_recognition_witness:
  "top_15_titles (recipient_stats (processCSVToRawData
      [\<lparr>message = ''hi'', award_title = ''Star'', recipient_title = ''Eng I'', nominator_title = ''Eng II''\<rparr>,
       \<lparr>message = ''hi'', award_title = ''Star'', recipient_title = ''Eng II'', nominator_title = ''Eng I''\<rparr>])) \<noteq> []
   \<and> overlap (computeTitleCount (processCSVToRawData
      [\<lparr>message = ''hi'', award_title = ''Star'', recipient_title = ''Eng I'', nominator_title = ''Eng II''\<rparr>,
       \<lparr>message = ''hi'', award_title = ''Star'', recipient_title = ''Eng II'', nominator_title = ''Eng I''\<rparr>])) = Some 2
   \<and> cr_m (captureRecapture (estimatePopulation (processCSVToRawData
      [\<lparr>message = ''hi'', award_title = ''Star'', recipient_title = ''Eng I'', nominator_title = ''Eng II''\<rparr>,
       \<lparr>message = ''hi'', award_title = ''Star'', recipient_title = ''Eng II'', nominator_title = ''Eng I''\<rparr>]))) = Some 2"
proof -
  let ?raw = "processCSVToRawData
      [\<lparr>message = ''hi'', award_title = ''Star'', recipient_title = ''Eng I'', nominator_title = ''Eng II''\<rparr>,
       \<lparr>message = ''hi'', award_title = ''Star'', recipient_title = ''Eng II'', nominator_title = ''Eng I''\<rparr>]"
  have h1: "top_15_titles (recipient_stats ?raw) \<noteq> []" by code_simp
  have h2: "top_15_titles (nominator_stats ?raw) \<noteq> []" by code_simp
  have s0: "\<not> self_recognition_count (interactions ?raw) > 0" by code_simp
  have sp: "overlap_from_shared_titles ?raw = Some 2" by code_simp
  from overlap_floor_and_self_recognition [OF h1 h2] obtain e k where
    "overlap_from_shared_titles ?raw = Some e" "overlap (computeTitleCount ?raw) = Some k"
    "int k = (if self_recognition_count (interactions ?raw) > 0
               then max e (jsRound (real (min (unique_count (recipient_stats ?raw))
                                              (unique_count (nominator_stats ?raw))) * 0.3))
               else e)"
    "cr_m (captureRecapture (estimatePopulation ?raw)) = Some k"
    by blast
  with s0 sp have "k = 2" "overlap (computeTitleCount ?raw) = Some k"
    "cr_m (captureRecapture (estimatePopulation ?raw)) = Some k" by simp_all
  with h1 show ?thesis by simp
qed

theorem overlap_with_self_recognition_counterexample:
  "self_recognition_count (interactions (processCSVToRawData
     (map (\<lambda>(n, r). \<lparr>message = ''thanks'', award_title = ''Star'', recipient_title = r, nominator_title = n\<rparr>)
        [(''A'', ''A''), (''G'', ''B''), (''H'', ''C''), (''I'', ''D''), (''J'', ''E''), (''K'', ''F'')]))) = 1
   \<and> overlap_from_shared_titles (processCSVToRawData
     (map (\<lambda>(n, r). \<lparr>message = ''thanks'', award_title = ''Star'', recipient_title = r, nominator_title = n\<rparr>)
        [(''A'', ''A''), (''G'', ''B''), (''H'', ''C''), (''I'', ''D''), (''J'', ''E''), (''K'', ''F'')])) = Some 1
   \<and> overlap (computeTitleCount (processCSVToRawData
     (map (\<lambda>(n, r). \<lparr>message = ''thanks'', award_title = ''Star'', recipient_title = r, nominator_title = n\<rparr>)
        [(''A'', ''A''), (''G'', ''B''), (''H'', ''C''), (''I'', ''D''), (''J'', ''E''), (''K'', ''F'')]))) = Some 2"
  by code_simp

section \<open>Properties of the bias score\<close>


























section \<open>Properties of the cross-run alignment\<close>

text \<open>
  The taxonomy diff keys its rows by the lower-cased, trimmed category name: the keys are
  distinct, and two categories of any two runs whose names agree up to letter case and
  surrounding whitespace are recorded in one row, which lists both runs.
\<close>

lemma set_setAdd: "set (setAdd x xs) = insert x (set xs)"
  by (auto simp: setAdd_def)

lemma addPresent_hit:
  "\<exists>n ps. (key, n, ps) \<in> set (addPresent key nm rn cm) \<and> rn \<in> set ps"
proof (induction cm)
  case Nil
  then show ?case by simp
next
  case (Cons a cm)
  obtain k n ps where a: "a = (k, n, ps)" by (cases a)
  show ?case
  proof (cases "k = key")
    case True
    have "(key, n, setAdd rn ps) \<in> set (addPresent key nm rn (a # cm)) \<and> rn \<in> set (setAdd rn ps)"
      using a True by (simp add: set_setAdd)
    then show ?thesis by blast
  next
    case False
    then show ?thesis using Cons.IH a by auto
  qed
qed

lemma addPresent_keeps:
  assumes "(k, n, ps) \<in> set cm" and "r \<in> set ps"
  shows "\<exists>n' ps'. (k, n', ps') \<in> set (addPresent key nm rn cm) \<and> r \<in> set ps'"
  using assms
proof (induction cm)
  case Nil
  then show ?case by simp
next
  case (Cons a cm)
  obtain k0 n0 ps0 where a: "a = (k0, n0, ps0)" by (cases a)
  show ?case
  proof (cases "k0 = key")
    case True
    show ?thesis
    proof (cases "(k, n, ps) = a")
      case True
      then have "(k, n, setAdd rn ps) \<in> set (addPresent key nm rn (a # cm)) \<and> r \<in> set (setAdd rn ps)"
        using a \<open>k0 = key\<close> Cons.prems(2) by (auto simp: set_setAdd)
      then show ?thesis by blast
    next
      case False
      then have "(k, n, ps) \<in> set (addPresent key nm rn (a # cm))"
        using a \<open>k0 = key\<close> Cons.prems(1) by auto
      then show ?thesis using Cons.prems(2) by blast
    qed
  next
    case False
    show ?thesis
    proof (cases "(k, n, ps) = a")
      case True
      then have "(k, n, ps) \<in> set (addPresent key nm rn (a # cm))"
        using a False by auto
      then show ?thesis using Cons.prems(2) by blast
    next
      case ne: False
      then have "(k, n, ps) \<in> set cm" using Cons.prems(1) by auto
      then obtain n' ps' where "(k, n', ps') \<in> set (addPresent key nm rn cm)" "r \<in> set ps'"
        using Cons.IH Cons.prems(2) by blast
      then have "(k, n', ps') \<in> set (addPresent key nm rn (a # cm)) \<and> r \<in> set ps'"
        using a False by auto
      then show ?thesis by blast
    qed
  qed
qed

lemma fold_addPresent_keeps:
  assumes "\<exists>n ps. (k, n, ps) \<in> set cm \<and> r \<in> set ps"
  shows "\<exists>n ps. (k, n, ps) \<in> set (fold (\<lambda>cat. addPresent (f cat) (g cat) rn) cats cm) \<and> r \<in> set ps"
  using assms
proof (induction cats arbitrary: cm)
  case Nil
  then show ?case by simp
next
  case (Cons c cats)
  from Cons.prems obtain n ps where "(k, n, ps) \<in> set cm" "r \<in> set ps" by blast
  then have "\<exists>n ps. (k, n, ps) \<in> set (addPresent (f c) (g c) rn cm) \<and> r \<in> set ps"
    by (rule addPresent_keeps)
  then show ?case using Cons.IH by simp
qed

lemma fold_addPresent_hit:
  assumes "cat \<in> set cats"
  shows "\<exists>n ps. (f cat, n, ps) \<in> set (fold (\<lambda>cat. addPresent (f cat) (g cat) rn) cats cm) \<and> rn \<in> set ps"
  using assms
proof (induction cats arbitrary: cm)
  case Nil
  then show ?case by simp
next
  case (Cons c cats)
  show ?case
  proof (cases "cat = c")
    case True
    have "\<exists>n ps. (f cat, n, ps) \<in> set (addPresent (f c) (g c) rn cm) \<and> rn \<in> set ps"
      using True addPresent_hit [of "f c" "g c" rn cm] by simp
    then show ?thesis
      using fold_addPresent_keeps [of "f cat" "addPresent (f c) (g c) rn cm" rn f g rn cats] by simp
  next
    case False
    then have "cat \<in> set cats" using Cons.prems by simp
    then show ?thesis using Cons.IH by simp
  qed
qed

lemma collectDiff_aligns_by_normalised_name:
  assumes "run \<in> set runs" and "run_taxonomy run = Some t" and "cat \<in> set t"
  shows "\<exists>n ps. (trim (toLowerCase (cat_name cat)), n, ps) \<in> set (collectDiff runs)
                \<and> run_name run \<in> set ps"
proof -
  let ?step = "\<lambda>run catMap.
             case run_taxonomy run of
               None \<Rightarrow> catMap
             | Some t \<Rightarrow>
                 fold (\<lambda>cat cm. addPresent (trim (toLowerCase (cat_name cat))) (cat_name cat) (run_name run) cm)
                   t catMap"
  have keep: "\<exists>n ps. (k, n, ps) \<in> set (fold ?step rs cm) \<and> r \<in> set ps"
    if "\<exists>n ps. (k, n, ps) \<in> set cm \<and> r \<in> set ps" for k r rs cm
    using that
  proof (induction rs arbitrary: cm)
    case Nil
    then show ?case by simp
  next
    case (Cons r0 rs)
    have "\<exists>n ps. (k, n, ps) \<in> set (?step r0 cm) \<and> r \<in> set ps"
    proof (cases "run_taxonomy r0")
      case None
      then show ?thesis using Cons.prems by simp
    next
      case (Some t0)
      then show ?thesis
        using fold_addPresent_keeps [OF Cons.prems,
            of "\<lambda>cat. trim (toLowerCase (cat_name cat))" cat_name "run_name r0" t0]
        by simp
    qed
    then show ?case using Cons.IH by simp
  qed
  have "\<exists>n ps. (trim (toLowerCase (cat_name cat)), n, ps) \<in> set (fold ?step runs cm)
                \<and> run_name run \<in> set ps" for cm
    using assms(1)
  proof (induction runs arbitrary: cm)
    case Nil
    then show ?case by simp
  next
    case (Cons r0 rs)
    show ?case
    proof (cases "run = r0")
      case True
      have "\<exists>n ps. (trim (toLowerCase (cat_name cat)), n, ps) \<in> set (?step r0 cm)
                \<and> run_name run \<in> set ps"
        using True assms(2)
          fold_addPresent_hit [OF assms(3),
            of "\<lambda>cat. trim (toLowerCase (cat_name cat))" cat_name "run_name run" cm]
        by simp
      then show ?thesis using keep [of _ "?step r0 cm" _ rs] by simp
    next
      case False
      then have "run \<in> set rs" using Cons.prems by simp
      then show ?thesis using Cons.IH by simp
    qed
  qed
  then show ?thesis unfolding collectDiff_def by blast
qed


lemma addPresent_keys:
  "map fst (addPresent key nm rn cm) =
     (if key \<in> set (map fst cm) then map fst cm else map fst cm @ [key])"
  by (induction cm) (force split: if_splits)+

lemma distinct_fold_addPresent:
  "distinct (map fst cm) \<Longrightarrow>
   distinct (map fst (fold (\<lambda>cat. addPresent (f cat) (g cat) rn) cats cm))"
  by (induction cats arbitrary: cm) (simp_all add: addPresent_keys)

lemma distinct_collectDiff: "distinct (map fst (collectDiff runs))"
proof -
  have "distinct (map fst (fold (\<lambda>run catMap.
             case run_taxonomy run of
               None \<Rightarrow> catMap
             | Some t \<Rightarrow>
                 fold (\<lambda>cat cm. addPresent (trim (toLowerCase (cat_name cat))) (cat_name cat) (run_name run) cm)
                   t catMap) runs cm))"
    if "distinct (map fst cm)" for cm
    using that
  proof (induction runs arbitrary: cm)
    case Nil
    then show ?case by simp
  next
    case (Cons r rs)
    show ?case
    proof (cases "run_taxonomy r")
      case None
      then show ?thesis using Cons by simp
    next
      case (Some t)
      then show ?thesis
        using Cons.IH [OF distinct_fold_addPresent [OF Cons.prems,
            of "\<lambda>cat. trim (toLowerCase (cat_name cat))" cat_name "run_name r" t]]
        by simp
    qed
  qed
  then show ?thesis unfolding collectDiff_def by simp
qed

lemma taxonomy_diff_matches_normalised_names:
  assumes "run1 \<in> set runs" "run_taxonomy run1 = Some t1" "cat1 \<in> set t1"
    and "run2 \<in> set runs" "run_taxonomy run2 = Some t2" "cat2 \<in> set t2"
    and "trim (toLowerCase (cat_name cat1)) = trim (toLowerCase (cat_name cat2))"
  shows "\<exists>row \<in> set (computeTaxonomyDiff runs).
           run_name run1 \<in> set (presentIn row) \<and> run_name run2 \<in> set (presentIn row)"
proof -
  let ?k = "trim (toLowerCase (cat_name cat1))"
  obtain n ps where a: "(?k, n, ps) \<in> set (collectDiff runs)" "run_name run1 \<in> set ps"
    using collectDiff_aligns_by_normalised_name [OF assms(1-3)] by blast
  obtain n' ps' where b: "(?k, n', ps') \<in> set (collectDiff runs)" "run_name run2 \<in> set ps'"
    using collectDiff_aligns_by_normalised_name [OF assms(4-6)] assms(7) by auto
  have "(n, ps) = (n', ps')"
    using a(1) b(1) distinct_collectDiff [of runs] by (meson eq_key_imp_eq_value)
  then have "run_name run2 \<in> set ps" using b(2) by simp
  moreover have "\<lparr> categoryId = [], categoryName = n, presentIn = ps,
                     missingFrom = filter (\<lambda>p. p \<notin> set ps) (map run_name runs) \<rparr>
      \<in> set (computeTaxonomyDiff runs)"
    using a(1) unfolding computeTaxonomyDiff_def Let_def sortDesc_def by force
  ultimately show ?thesis using a(2) by force
qed

text \<open>
  Claim C8. Two runs whose only category is named \<open>Teamwork\<close> in one and \<open>teamwork\<close> with a
  trailing space in the other: the taxonomy diff has one row for the two names, present in
  both runs, while the category-overlap table has two rows, one per spelling.
\<close>

theorem category_overlap_keeps_spellings_apart:
  "computeTaxonomyDiff
     [\<lparr>run_name = ''r1'',
       run_taxonomy = Some [\<lparr>cat_id = ''C1'', cat_name = ''Teamwork'', subcategories = []\<rparr>],
       run_phase2 = Some \<lparr>classifications =
           [\<lparr>batch = 0, category = Some ''C1'', subcategory = None, themes = [], new_category = None\<rparr>],
         metadata = \<lparr>total_messages = 1, total_classified = 1, batch_size = 5\<rparr>,
         candidate_categories = []\<rparr>\<rparr>,
      \<lparr>run_name = ''r2'',
       run_taxonomy = Some [\<lparr>cat_id = ''K1'', cat_name = ''teamwork '', subcategories = []\<rparr>],
       run_phase2 = Some \<lparr>classifications =
           [\<lparr>batch = 0, category = Some ''K1'', subcategory = None, themes = [], new_category = None\<rparr>],
         metadata = \<lparr>total_messages = 1, total_classified = 1, batch_size = 5\<rparr>,
         candidate_categories = []\<rparr>\<rparr>]
   = [\<lparr>categoryId = [], categoryName = ''Teamwork'', presentIn = [''r1'', ''r2''], missingFrom = []\<rparr>]
   \<and> computeCategoryOverlap
     [\<lparr>run_name = ''r1'',
       run_taxonomy = Some [\<lparr>cat_id = ''C1'', cat_name = ''Teamwork'', subcategories = []\<rparr>],
       run_phase2 = Some \<lparr>classifications =
           [\<lparr>batch = 0, category = Some ''C1'', subcategory = None, themes = [], new_category = None\<rparr>],
         metadata = \<lparr>total_messages = 1, total_classified = 1, batch_size = 5\<rparr>,
         candidate_categories = []\<rparr>\<rparr>,
      \<lparr>run_name = ''r2'',
       run_taxonomy = Some [\<lparr>cat_id = ''K1'', cat_name = ''teamwork '', subcategories = []\<rparr>],
       run_phase2 = Some \<lparr>classifications =
           [\<lparr>batch = 0, category = Some ''K1'', subcategory = None, themes = [], new_category = None\<rparr>],
         metadata = \<lparr>total_messages = 1, total_classified = 1, batch_size = 5\<rparr>,
         candidate_categories = []\<rparr>\<rparr>]
   = [\<lparr>co_category = ''Teamwork'', co_pipelines = [(''r1'', 1), (''r2'', 0)]\<rparr>,
      \<lparr>co_category = ''teamwork '', co_pipelines = [(''r1'', 0), (''r2'', 1)]\<rparr>]"
  by code_simp

end
